theory Spec2Isabelle
  imports Main "HOL-Library.Word" "HOL-Library.Sublist" "HOL-Library.List_Lexorder"
begin

section \<open>JavaScript strings\<close>

text \<open>
  A JavaScript string is a sequence of 16-bit code units. The symbols of the compact mode
  lie beyond Latin-1, and \<open>trim\<close> removes white space beyond ASCII, so a string is
  modelled as the list of its code units, each a 16-bit word. \<open>js\<close> turns an ASCII
  literal into such a string.
\<close>

type_synonym jsstring = "16 word list"

definition js :: "string \<Rightarrow> jsstring" where
  "js s = map of_char s"

text \<open>White space and line terminators of ECMAScript, which \<open>trim\<close> removes.\<close>

definition isWhiteSpace :: "16 word \<Rightarrow> bool" where
  "isWhiteSpace c \<longleftrightarrow>
     c = 9 \<or> c = 10 \<or> c = 11 \<or> c = 12 \<or> c = 13 \<or> c = 32 \<or> c = 160 \<or> c = 5760 \<or>
     (8192 \<le> c \<and> c \<le> 8202) \<or> c = 8232 \<or> c = 8233 \<or> c = 8239 \<or> c = 8287 \<or>
     c = 12288 \<or> c = 65279"

definition trimStart :: "jsstring \<Rightarrow> jsstring" where
  "trimStart s = dropWhile isWhiteSpace s"

definition trimEnd :: "jsstring \<Rightarrow> jsstring" where
  "trimEnd s = rev (dropWhile isWhiteSpace (rev s))"

definition trim :: "jsstring \<Rightarrow> jsstring" where
  "trim s = trimEnd (trimStart s)"

definition startsWith :: "jsstring \<Rightarrow> jsstring \<Rightarrow> bool" where
  "startsWith s p = prefix p s"

definition endsWith :: "jsstring \<Rightarrow> jsstring \<Rightarrow> bool" where
  "endsWith s p = suffix p s"

definition str_includes :: "jsstring \<Rightarrow> jsstring \<Rightarrow> bool" where
  "str_includes s p = sublist p s"

text \<open>
  \<open>xs.slice(a, b)\<close> on strings and arrays: a negative index counts from the end, and
  both ends are clamped to the length.
\<close>

definition slice :: "'a list \<Rightarrow> int \<Rightarrow> int \<Rightarrow> 'a list" where
  "slice xs a b =
     (let n = int (length xs);
          from = (if a < 0 then max (n + a) 0 else min a n);
          to = (if b < 0 then max (n + b) 0 else min b n)
      in take (nat (to - from)) (drop (nat from) xs))"

text \<open>\<open>xs.slice(a)\<close>, to the end.\<close>

definition slice_from :: "'a list \<Rightarrow> int \<Rightarrow> 'a list" where
  "slice_from xs a =
     (let n = int (length xs);
          from = (if a < 0 then max (n + a) 0 else min a n)
      in drop (nat from) xs)"

text \<open>\<open>s.indexOf(c)\<close> for a one-unit pattern: the first position, or -1.\<close>

definition indexOf :: "jsstring \<Rightarrow> 16 word \<Rightarrow> int" where
  "indexOf s c = (if c \<in> set s then int (length (takeWhile (\<lambda>x. x \<noteq> c) s)) else - 1)"

text \<open>
  \<open>s.split(sep)\<close>: the pieces between the occurrences of the separator, found from the
  left and not overlapping. An empty separator splits into code units.
\<close>

function split_at :: "jsstring \<Rightarrow> jsstring \<Rightarrow> jsstring list" where
  "split_at sep [] = [[]]"
| "split_at sep (c # cs) =
     (if sep \<noteq> [] \<and> prefix sep (c # cs)
      then [] # split_at sep (drop (length sep) (c # cs))
      else (case split_at sep cs of [] \<Rightarrow> [[c]] | p # ps \<Rightarrow> (c # p) # ps))"
  by pat_completeness auto
termination
  by (relation "measure (\<lambda>(sep, s). length s)") (auto simp: neq_Nil_conv)

definition split :: "jsstring \<Rightarrow> jsstring \<Rightarrow> jsstring list" where
  "split s sep = (if sep = [] then map (\<lambda>c. [c]) s else split_at sep s)"

fun join :: "jsstring \<Rightarrow> jsstring list \<Rightarrow> jsstring" where
  "join sep [] = []"
| "join sep [x] = x"
| "join sep (x # y # ys) = x @ sep @ join sep (y # ys)"

text \<open>
  \<open>s.replace(/c/g, r)\<close> for a pattern of one code unit, and \<open>s.replace(/ab/g, r)\<close>
  for a pattern of two: every occurrence, found from the left and not overlapping.
\<close>

definition replace1 :: "16 word \<Rightarrow> jsstring \<Rightarrow> jsstring \<Rightarrow> jsstring" where
  "replace1 c r s = concat (map (\<lambda>x. if x = c then r else [x]) s)"

fun replace2 :: "16 word \<Rightarrow> 16 word \<Rightarrow> jsstring \<Rightarrow> jsstring \<Rightarrow> jsstring" where
  "replace2 a b r (x # y # zs) =
     (if x = a \<and> y = b then r @ replace2 a b r zs else x # replace2 a b r (y # zs))"
| "replace2 a b r s = s"

text \<open>Decimal text of a natural number and of an integer.\<close>

fun digits :: "nat \<Rightarrow> nat \<Rightarrow> jsstring" where
  "digits 0 n = []"
| "digits (Suc k) n = (if n < 10 then [48 + of_nat n] else digits k (n div 10) @ [48 + of_nat (n mod 10)])"

definition nat_to_string :: "nat \<Rightarrow> jsstring" where
  "nat_to_string n = digits (Suc n) n"

definition int_to_string :: "int \<Rightarrow> jsstring" where
  "int_to_string i = (if i < 0 then 45 # nat_to_string (nat (- i)) else nat_to_string (nat i))"

section \<open>What the program takes from the JavaScript runtime\<close>

text \<open>
  Numbers are IEEE doubles, converted to and from text by the runtime; lower-casing follows
  the Unicode tables; and a lookup in an object literal also finds the members that every
  object inherits from \<open>Object.prototype\<close>. None of these is code of the program. The
  model takes them as a record of functions over an arbitrary type \<open>'n\<close> of numbers, and
  every theorem holds for every such record.
\<close>

record 'n runtime =
  number_to_string :: "'n \<Rightarrow> jsstring"
  string_to_number :: "jsstring \<Rightarrow> 'n"
  is_finite :: "'n \<Rightarrow> bool"
  unicode_lower :: "jsstring \<Rightarrow> jsstring"
  member_text :: "jsstring \<Rightarrow> jsstring"
  member_length :: "jsstring \<Rightarrow> nat option"

text \<open>
  \<open>number_to_string\<close> is \<open>String(n)\<close>, \<open>string_to_number\<close> is \<open>Number(s)\<close>,
  \<open>is_finite\<close> is \<open>isFinite(n)\<close>. \<open>unicode_lower\<close> is \<open>s.toLowerCase()\<close> on a
  string with a code unit beyond ASCII; on an ASCII string lower-casing is the map below.
  \<open>member_text name\<close> is \<open>String(Object.prototype[name])\<close> and \<open>member_length name\<close>
  is the \<open>length\<close> property of that member, when it has one.
\<close>

definition toLowerCase :: "'n runtime \<Rightarrow> jsstring \<Rightarrow> jsstring" where
  "toLowerCase rt s =
     (if list_all (\<lambda>c. c < 128) s
      then map (\<lambda>c. if 65 \<le> c \<and> c \<le> 90 then c + 32 else c) s
      else unicode_lower rt s)"

section \<open>Values\<close>

text \<open>
  \<open>JsonValue\<close> of the source is null, a boolean, a number, a string, an array or an
  object with its properties in the order of \<open>Object.keys\<close>. More values reach the
  program at run time: \<open>undefined\<close>; a member inherited from \<open>Object.prototype\<close>
  (a function, or the prototype object itself for the name \<open>__proto__\<close>), which a lookup
  in one of the symbol tables returns for a name such as \<open>constructor\<close>; and an object
  whose prototype an assignment to \<open>__proto__\<close> has replaced. \<open>JObject\<close> is an object
  with the prototype \<open>Object.prototype\<close>, as an object literal makes it;
  \<open>JObjectProto p kvs\<close> is an object with the own properties \<open>kvs\<close> and the
  prototype \<open>p\<close>, where \<open>JNull\<close> stands for no prototype.
\<close>

datatype 'n json =
    JNull
  | JUndefined
  | JBool bool
  | JNumber 'n
  | JString jsstring
  | JArray "'n json list"
  | JObject "(jsstring \<times> 'n json) list"
  | JObjectProto "'n json" "(jsstring \<times> 'n json) list"
  | JMember jsstring

definition object_prototype_members :: "jsstring list" where
  "object_prototype_members =
     [js ''constructor'', js ''__defineGetter__'', js ''__defineSetter__'',
      js ''hasOwnProperty'', js ''__lookupGetter__'', js ''__lookupSetter__'',
      js ''isPrototypeOf'', js ''propertyIsEnumerable'', js ''toString'', js ''valueOf'',
      js ''__proto__'', js ''toLocaleString'']"

text \<open>\<open>table[key]\<close> on one of the two constant tables, and the truth value of the result.\<close>

datatype property = Own jsstring | Inherited jsstring | Missing

definition lookup :: "(jsstring \<times> jsstring) list \<Rightarrow> jsstring \<Rightarrow> property" where
  "lookup table key =
     (case map_of table key of
        Some v \<Rightarrow> Own v
      | None \<Rightarrow> if key \<in> set object_prototype_members then Inherited key else Missing)"

fun truthy :: "property \<Rightarrow> bool" where
  "truthy (Own v) = (v \<noteq> [])"
| "truthy (Inherited name) = True"
| "truthy Missing = False"

fun property_value :: "property \<Rightarrow> 'n json" where
  "property_value (Own v) = JString v"
| "property_value (Inherited name) = JMember name"
| "property_value Missing = JUndefined"

text \<open>
  \<open>String(value)\<close>. (For an object whose prototype was replaced the conversion goes
  through the new prototype and can fail; the program converts no such object, and the model
  gives it the text of an ordinary object.)
\<close>

fun ToString :: "'n runtime \<Rightarrow> 'n json \<Rightarrow> jsstring" where
  "ToString rt JNull = js ''null''"
| "ToString rt JUndefined = js ''undefined''"
| "ToString rt (JBool b) = (if b then js ''true'' else js ''false'')"
| "ToString rt (JNumber n) = number_to_string rt n"
| "ToString rt (JString s) = s"
| "ToString rt (JArray xs) =
     join (js '','')
       (map (\<lambda>x. if x = JNull \<or> x = JUndefined then [] else ToString rt x) xs)"
| "ToString rt (JObject kvs) = js ''[object Object]''"
| "ToString rt (JObjectProto p kvs) = js ''[object Object]''"
| "ToString rt (JMember name) = member_text rt name"

section \<open>Quoting and escaping\<close>

definition STATUS_SYMBOLS :: "(jsstring \<times> jsstring) list" where
  "STATUS_SYMBOLS =
     [(js ''completed'', [10003]), (js ''complete'', [10003]), (js ''success'', [10003]),
      (js ''done'', [10003]), (js ''passed'', [10003]), (js ''true'', [10003]),
      (js ''yes'', [10003]),
      (js ''failed'', [10007]), (js ''failure'', [10007]), (js ''error'', [10007]),
      (js ''rejected'', [10007]), (js ''false'', [10007]), (js ''no'', [10007]),
      (js ''pending'', [9203]), (js ''waiting'', [9203]), (js ''in_progress'', [9203]),
      (js ''running'', [9203]),
      (js ''warning'', [9888]), (js ''warn'', [9888]),
      (js ''review'', js ''?''), (js ''unknown'', js ''?'')]"

definition REVERSE_SYMBOLS :: "(jsstring \<times> jsstring) list" where
  "REVERSE_SYMBOLS =
     [([10003], js ''true''), ([10007], js ''false''), ([9203], js ''pending''),
      ([9888], js ''warning''), (js ''?'', js ''unknown'')]"

definition isDigit :: "16 word \<Rightarrow> bool" where
  "isDigit c \<longleftrightarrow> 48 \<le> c \<and> c \<le> 57"

text \<open>The test \<open>/^-?\d+\.?\d*$/\<close> of \<open>needsQuoting\<close>.\<close>

definition plainNumber :: "jsstring \<Rightarrow> bool" where
  "plainNumber s =
     (let s1 = (if s \<noteq> [] \<and> hd s = 45 then tl s else s);
          r = dropWhile isDigit s1;
          r1 = (if r \<noteq> [] \<and> hd r = 46 then tl r else r)
      in takeWhile isDigit s1 \<noteq> [] \<and> list_all isDigit r1)"

definition needsQuoting :: "'n runtime \<Rightarrow> jsstring \<Rightarrow> bool" where
  "needsQuoting rt v =
     (if v = [] then True
      else if startsWith v (js '' '') \<or> endsWith v (js '' '') then True
      else if str_includes v (js ''|'') \<or> str_includes v [10] \<or> str_includes v [13] then True
      else if str_includes v (js '','') then True
      else if plainNumber v then True
      else if toLowerCase rt v \<in> set [js ''true'', js ''false'', js ''null''] then True
      else if str_includes v (js '':'') \<and> \<not> str_includes v (js ''://'') then True
      else if str_includes v [34] then True
      else False)"

definition escapeString :: "jsstring \<Rightarrow> jsstring" where
  "escapeString v =
     replace1 9 [92, 116] (replace1 13 [92, 114] (replace1 10 [92, 110]
       (replace1 34 [92, 34] (replace1 92 [92, 92] v))))"

definition unescapeString :: "jsstring \<Rightarrow> jsstring" where
  "unescapeString v =
     replace2 92 92 [92] (replace2 92 34 [34] (replace2 92 116 [9]
       (replace2 92 114 [13] (replace2 92 110 [10] v))))"

section \<open>Formatting and parsing a primitive\<close>

text \<open>
  The options of \<open>encode\<close>. A missing \<open>compact\<close> or \<open>sortKeys\<close> acts as false and a
  missing \<open>indent\<close> as 0 (the code reads \<open>options.indent || 2\<close>); \<open>indent\<close> is a
  natural number here (\<open>' '.repeat\<close> raises a RangeError on a negative one).
\<close>

record EncodeOptions =
  indent :: nat
  compact :: bool
  sortKeys :: bool

definition default_encode_options :: EncodeOptions where
  "default_encode_options = \<lparr> indent = 2, compact = False, sortKeys = False \<rparr>"

text \<open>
  \<open>formatPrimitive\<close> returns a string, except in compact mode on a name inherited from
  \<open>Object.prototype\<close>, where the lookup in \<open>STATUS_SYMBOLS\<close> returns that member and the
  function hands it on: the result is therefore a value.
\<close>

definition formatPrimitive :: "'n runtime \<Rightarrow> 'n json \<Rightarrow> EncodeOptions \<Rightarrow> bool \<Rightarrow> 'n json" where
  "formatPrimitive rt v options inTable =
     (case v of
        JNull \<Rightarrow> JString (if inTable then js ''-'' else js ''null'')
      | JUndefined \<Rightarrow> JString (if inTable then js ''-'' else js ''null'')
      | JBool b \<Rightarrow> JString (if b then js ''true'' else js ''false'')
      | JNumber n \<Rightarrow>
          (if \<not> is_finite rt n then JString (js ''null'') else JString (number_to_string rt n))
      | JString s \<Rightarrow>
          (if compact options \<and> truthy (lookup STATUS_SYMBOLS (toLowerCase rt s))
           then property_value (lookup STATUS_SYMBOLS (toLowerCase rt s))
           else if s = [] \<and> inTable then JString (js ''-'')
           else if needsQuoting rt s then JString ([34] @ escapeString s @ [34])
           else JString s)
      | _ \<Rightarrow> JString (ToString rt v))"

text \<open>The test \<open>/^-?\d+(\.\d+)?([eE][+-]?\d+)?$/\<close> of \<open>parsePrimitive\<close>.\<close>

definition numberLiteral :: "jsstring \<Rightarrow> bool" where
  "numberLiteral s =
     (let s1 = (if s \<noteq> [] \<and> hd s = 45 then tl s else s);
          r = dropWhile isDigit s1;
          r2 = (if r \<noteq> [] \<and> hd r = 46 \<and> takeWhile isDigit (tl r) \<noteq> []
                then dropWhile isDigit (tl r) else r)
      in takeWhile isDigit s1 \<noteq> [] \<and>
         (r2 = [] \<or>
          ((hd r2 = 101 \<or> hd r2 = 69) \<and>
           (let r3 = tl r2;
                r4 = (if r3 \<noteq> [] \<and> (hd r3 = 43 \<or> hd r3 = 45) then tl r3 else r3)
            in r4 \<noteq> [] \<and> list_all isDigit r4))))"

definition parsePrimitive :: "'n runtime \<Rightarrow> jsstring \<Rightarrow> 'n json" where
  "parsePrimitive rt v =
     (let trimmed = trim v in
      if trimmed = js ''null'' \<or> trimmed = js ''-'' \<or> trimmed = [] then JNull
      else if trimmed = js ''true'' then JBool True
      else if trimmed = js ''false'' then JBool False
      else if truthy (lookup REVERSE_SYMBOLS trimmed)
        then property_value (lookup REVERSE_SYMBOLS trimmed)
      else if startsWith trimmed [34] \<and> endsWith trimmed [34]
        then JString (unescapeString (slice trimmed 1 (- 1)))
      else if numberLiteral trimmed \<and> is_finite rt (string_to_number rt trimmed)
        then JNumber (string_to_number rt trimmed)
      else JString trimmed)"

section \<open>The decoder\<close>

text \<open>
  The options of \<open>decode\<close>. \<open>decode\<close> fills in the defaults and hands the record to
  \<open>parseDocument\<close>; no function reads a field of it.
\<close>

record DecodeOptions =
  strict :: bool
  indent :: nat

text \<open>
  The decoder can raise in two ways, both a TypeError: reading \<open>lines[i]\<close> beyond the
  array gives \<open>undefined\<close>, and calling \<open>trim\<close> on it fails; and, the module being
  strict code, an assignment \<open>obj[key] = value\<close> fails when \<open>obj\<close> inherits \<open>key\<close>
  as a property that cannot be written.
\<close>

datatype error = TypeError

text \<open>\<open>line.length - line.trimStart().length\<close>.\<close>

definition lineIndentOf :: "jsstring \<Rightarrow> nat" where
  "lineIndentOf line = length line - length (trimStart line)"

text \<open>
  The order of the own properties of an object: the keys that are array indices (canonical
  decimal numerals below \<open>2^32 - 1\<close>) come first, in ascending order, and the other keys
  follow in the order of their creation.
\<close>

definition decimal_value :: "jsstring \<Rightarrow> int" where
  "decimal_value s = foldl (\<lambda>n c. 10 * n + (uint c - 48)) 0 s"

definition is_array_index :: "jsstring \<Rightarrow> bool" where
  "is_array_index k \<longleftrightarrow>
     k \<noteq> [] \<and> list_all isDigit k \<and> (k = js ''0'' \<or> hd k \<noteq> 48) \<and>
     decimal_value k < 4294967295"

fun insert_index :: "jsstring \<Rightarrow> 'v \<Rightarrow> (jsstring \<times> 'v) list \<Rightarrow> (jsstring \<times> 'v) list" where
  "insert_index k v [] = [(k, v)]"
| "insert_index k v ((k', v') # kvs) =
     (if is_array_index k' \<and> decimal_value k' < decimal_value k
      then (k', v') # insert_index k v kvs
      else (k, v) # (k', v') # kvs)"

text \<open>
  Writing the own data property \<open>k\<close>: an old key keeps its place and gets the new value, a
  new key is created at its place in the order.
\<close>

fun update_property :: "(jsstring \<times> 'v) list \<Rightarrow> jsstring \<Rightarrow> 'v \<Rightarrow> (jsstring \<times> 'v) list" where
  "update_property [] k v = [(k, v)]"
| "update_property ((k', v') # kvs) k v =
     (if k' = k then (k, v) # kvs else (k', v') # update_property kvs k v)"

definition assign :: "(jsstring \<times> 'v) list \<Rightarrow> jsstring \<Rightarrow> 'v \<Rightarrow> (jsstring \<times> 'v) list" where
  "assign kvs k v =
     (if k \<in> set (map fst kvs) then update_property kvs k v
      else if is_array_index k then insert_index k v kvs
      else kvs @ [(k, v)])"

text \<open>
  \<open>obj[key] = value\<close>, for an object \<open>obj\<close>. An own property is written. Otherwise the
  prototype chain decides: what the assignment finds there for the key is nothing or a data
  property that can be written (the key becomes an own property of \<open>obj\<close>), a property that
  cannot be written (a TypeError), or the accessor \<open>__proto__\<close> of \<open>Object.prototype\<close>,
  whose setter replaces the prototype of \<open>obj\<close> when the value is an object or null and does
  nothing otherwise.

  The prototypes that can occur are \<open>Object.prototype\<close> itself (the value
  \<open>JMember __proto__\<close>), no prototype, and the values that the decoder can assign to
  \<open>__proto__\<close>: a method of \<open>Object.prototype\<close> or the function \<open>Object\<close> (under
  the name \<open>constructor\<close>), an array, or an object that the decoder built. A function has
  the read-only properties \<open>name\<close> and \<open>length\<close>, the constructor \<open>Object\<close> also
  \<open>prototype\<close>, and every function inherits the accessors \<open>caller\<close> and
  \<open>arguments\<close>, whose setter raises; its other properties, those of
  \<open>Function.prototype\<close> and those of arrays can be written.
\<close>

datatype inherited = Writable | ReadOnly | ProtoSetter

definition object_prototype_property :: "jsstring \<Rightarrow> inherited" where
  "object_prototype_property key = (if key = js ''__proto__'' then ProtoSetter else Writable)"

fun find_inherited :: "'n json \<Rightarrow> jsstring \<Rightarrow> inherited" where
  "find_inherited (JMember name) key =
     (if name = js ''__proto__'' then object_prototype_property key
      else if key = js ''name'' \<or> key = js ''length'' \<or> key = js ''caller'' \<or>
              key = js ''arguments'' \<or> (name = js ''constructor'' \<and> key = js ''prototype'')
      then ReadOnly
      else object_prototype_property key)"
| "find_inherited (JArray xs) key = object_prototype_property key"
| "find_inherited (JObject kvs) key =
     (if key \<in> set (map fst kvs) then Writable else object_prototype_property key)"
| "find_inherited (JObjectProto p kvs) key =
     (if key \<in> set (map fst kvs) then Writable else find_inherited p key)"
| "find_inherited JNull key = Writable"
| "find_inherited JUndefined key = Writable"
| "find_inherited (JBool b) key = Writable"
| "find_inherited (JNumber n) key = Writable"
| "find_inherited (JString s) key = Writable"

definition own_properties :: "'n json \<Rightarrow> (jsstring \<times> 'n json) list" where
  "own_properties obj =
     (case obj of JObject kvs \<Rightarrow> kvs | JObjectProto p kvs \<Rightarrow> kvs | _ \<Rightarrow> [])"

definition prototype_of :: "'n json \<Rightarrow> 'n json" where
  "prototype_of obj =
     (case obj of JObjectProto p kvs \<Rightarrow> p | _ \<Rightarrow> JMember (js ''__proto__''))"

definition make_object :: "'n json \<Rightarrow> (jsstring \<times> 'n json) list \<Rightarrow> 'n json" where
  "make_object p kvs = (if p = JMember (js ''__proto__'') then JObject kvs else JObjectProto p kvs)"

text \<open>The type of the value is Object: arrays, objects and functions.\<close>

definition is_object :: "'n json \<Rightarrow> bool" where
  "is_object v =
     (case v of JArray xs \<Rightarrow> True | JObject kvs \<Rightarrow> True | JObjectProto p kvs \<Rightarrow> True
      | JMember name \<Rightarrow> True | _ \<Rightarrow> False)"

definition set_property :: "'n json \<Rightarrow> jsstring \<Rightarrow> 'n json \<Rightarrow> error + 'n json" where
  "set_property obj key v =
     (let own = own_properties obj
      in if key \<in> set (map fst own) then Inr (make_object (prototype_of obj) (assign own key v))
         else
           (case find_inherited (prototype_of obj) key of
              Writable \<Rightarrow> Inr (make_object (prototype_of obj) (assign own key v))
            | ReadOnly \<Rightarrow> Inl TypeError
            | ProtoSetter \<Rightarrow>
                Inr (if v = JNull \<or> is_object v then make_object v own else obj)))"

text \<open>The row built by \<open>headers.forEach((h, idx) => { row[h] = cells[idx] })\<close>.\<close>

fun set_properties :: "'n json \<Rightarrow> (jsstring \<times> 'n json) list \<Rightarrow> error + 'n json" where
  "set_properties obj [] = Inr obj"
| "set_properties obj ((h, c) # rest) =
     (case set_property obj h c of
        Inl e \<Rightarrow> Inl e
      | Inr obj' \<Rightarrow> set_properties obj' rest)"

definition make_row :: "jsstring list \<Rightarrow> 'n json list \<Rightarrow> error + 'n json" where
  "make_row headers cells = set_properties (JObject []) (zip headers cells)"

text \<open>\<open>text.split('|').slice(1, -1)\<close>, used for the header and for every row.\<close>

definition pipe_fields :: "jsstring \<Rightarrow> jsstring list" where
  "pipe_fields text = slice (split text (js ''|'')) 1 (- 1)"

text \<open>
  The loop of \<open>parseTable\<close>; it returns the rows and the index at which it stopped, or
  the error that building a row raised.
\<close>

function parseTable_rows ::
    "'n runtime \<Rightarrow> jsstring list \<Rightarrow> nat \<Rightarrow> jsstring list \<Rightarrow> nat \<Rightarrow> 'n json list \<Rightarrow>
     error + ('n json list \<times> nat)" where
  "parseTable_rows rt lines indent' headers i result =
     (if i < length lines then
        (let line = lines ! i;
             lineIndent = lineIndentOf line;
             trimmed = trim line
         in if \<not> startsWith trimmed (js ''|'') then Inr (result, i)
            else if lineIndent < indent' \<and> trimmed \<noteq> [] then Inr (result, i)
            else
              (let cells = map (\<lambda>c. parsePrimitive rt (trim c)) (pipe_fields trimmed)
               in if length cells = length headers then
                    (case make_row headers cells of
                       Inl e \<Rightarrow> Inl e
                     | Inr row \<Rightarrow>
                         parseTable_rows rt lines indent' headers (i + 1) (result @ [row]))
                  else parseTable_rows rt lines indent' headers (i + 1) result))
      else Inr (result, i))"
  by pat_completeness auto
termination
  by (relation "measure (\<lambda>(rt, lines, indent', headers, i, result). length lines - i)") auto

declare parseTable_rows.simps [simp del]

definition parseTable ::
    "'n runtime \<Rightarrow> jsstring list \<Rightarrow> nat \<Rightarrow> nat \<Rightarrow> error + ('n json list \<times> nat)" where
  "parseTable rt lines startIndex indent' =
     (if \<not> startIndex < length lines then Inl TypeError
      else
        (let headerLine = trim (lines ! startIndex)
         in if \<not> startsWith headerLine (js ''|'') then Inr ([], startIndex)
            else
              (let headers = map trim (pipe_fields headerLine)
               in case parseTable_rows rt lines indent' headers (startIndex + 1) [] of
                    Inl e \<Rightarrow> Inl e
                  | Inr (result, i) \<Rightarrow> Inr (result, i - 1))))"

text \<open>\<open>while (nextIdx < lines.length && lines[nextIdx].trim() === '') nextIdx++\<close>.\<close>

function skipBlank :: "jsstring list \<Rightarrow> nat \<Rightarrow> nat" where
  "skipBlank lines nextIdx =
     (if nextIdx < length lines \<and> trim (lines ! nextIdx) = []
      then skipBlank lines (nextIdx + 1) else nextIdx)"
  by pat_completeness auto
termination
  by (relation "measure (\<lambda>(lines, n). length lines - n)") auto

declare skipBlank.simps [simp del]

text \<open>
  One turn of the loop of \<open>parseDocument\<close>, at the line \<open>i\<close> (which is within the
  array): the tests of the loop body in their order, and what the body does in the end. It
  skips the line (\<open>i++; continue\<close>), leaves the loop (\<open>break\<close>), assigns a value to a
  key and goes on to the next line, or finds a table or a nested block under the key, at
  the line \<open>nextIdx\<close> with the indentation \<open>nextIndent\<close>.
\<close>

datatype 'n action =
    Skip
  | Break
  | Assign jsstring "'n json"
  | Table jsstring nat nat
  | Nested jsstring nat nat

definition line_action :: "'n runtime \<Rightarrow> jsstring list \<Rightarrow> nat \<Rightarrow> nat \<Rightarrow> 'n action" where
  "line_action rt lines baseIndent i =
     (let line = lines ! i
      in if trim line = [] \<or> startsWith (trim line) (js ''#'') then Skip
         else
           (let lineIndent = lineIndentOf line
            in if lineIndent < baseIndent then Break
               else if lineIndent > baseIndent then Skip
               else
                 (let trimmed = trim line
                  in if startsWith trimmed (js ''|'') then Skip
                     else
                       (let colonIndex = indexOf trimmed 58
                        in if colonIndex = - 1 then Skip
                           else
                             (let key = trim (slice trimmed 0 colonIndex);
                                  valueStr = trim (slice_from trimmed (colonIndex + 1))
                              in if valueStr = [] \<or> valueStr = js ''[]'' then
                                   (let nextIdx = skipBlank lines (i + 1);
                                        notFound = Assign key
                                          (if valueStr = js ''[]'' then JArray [] else JObject [])
                                    in if nextIdx < length lines then
                                         (let nextLine = lines ! nextIdx;
                                              nextIndent = lineIndentOf nextLine;
                                              nextTrimmed = trim nextLine
                                          in if nextIndent > baseIndent \<and>
                                                startsWith nextTrimmed (js ''|'')
                                             then Table key nextIdx nextIndent
                                             else if nextIndent > baseIndent \<and>
                                                nextTrimmed \<noteq> [] \<and>
                                                \<not> startsWith nextTrimmed (js ''#'')
                                             then Nested key nextIdx nextIndent
                                             else notFound)
                                       else notFound)
                                 else if startsWith valueStr [34] \<and> endsWith valueStr [34]
                                 then Assign key (parsePrimitive rt valueStr)
                                 else if str_includes valueStr (js '' | '')
                                 then Assign key
                                   (JArray (map (\<lambda>v. parsePrimitive rt (trim v))
                                      (split valueStr (js '' | ''))))
                                 else if str_includes valueStr (js '', '')
                                 then Assign key
                                   (JArray (map (\<lambda>v. parsePrimitive rt (trim v))
                                      (split valueStr (js '', ''))))
                                 else Assign key (parsePrimitive rt valueStr))))))"

text \<open>
  The loop of \<open>parseDocument\<close>, with the object built so far and the index \<open>i\<close>. After
  a table it goes on behind the table's last line; the call for a nested block starts a new
  loop with an empty object and hands back the index at which it stopped, where this loop
  goes on. An assignment to the object that raises ends the loop with the error.
\<close>

function parseDocument_loop ::
    "'n runtime \<Rightarrow> jsstring list \<Rightarrow> nat \<Rightarrow> DecodeOptions \<Rightarrow> nat \<Rightarrow> 'n json \<Rightarrow>
     error + ('n json \<times> nat)" where
  "parseDocument_loop rt lines baseIndent options i result =
     (if i < length lines then
        (case line_action rt lines baseIndent i of
           Skip \<Rightarrow> parseDocument_loop rt lines baseIndent options (i + 1) result
         | Break \<Rightarrow> Inr (result, i)
         | Assign key v \<Rightarrow>
             (case set_property result key v of
                Inl e \<Rightarrow> Inl e
              | Inr result' \<Rightarrow> parseDocument_loop rt lines baseIndent options (i + 1) result')
         | Table key nextIdx nextIndent \<Rightarrow>
             (case parseTable rt lines nextIdx nextIndent of
                Inl e \<Rightarrow> Inl e
              | Inr (tableValue, endIndex) \<Rightarrow>
                  (case set_property result key (JArray tableValue) of
                     Inl e \<Rightarrow> Inl e
                   | Inr result' \<Rightarrow>
                       parseDocument_loop rt lines baseIndent options (endIndex + 1) result'))
         | Nested key nextIdx nextIndent \<Rightarrow>
             (case parseDocument_loop rt lines nextIndent options nextIdx (JObject []) of
                Inl e \<Rightarrow> Inl e
              | Inr (nested, endIndex) \<Rightarrow>
                  (case set_property result key nested of
                     Inl e \<Rightarrow> Inl e
                   | Inr result' \<Rightarrow>
                       parseDocument_loop rt lines baseIndent options endIndex result')))
      else Inr (result, i))"
  by pat_completeness auto
termination
proof -
  have skip: "n \<le> skipBlank lines n" for lines n
    by (induction lines n rule: skipBlank.induct) (subst skipBlank.simps, auto)
  have rows: "parseTable_rows rt lines ind headers i result = Inr (rs, e) \<Longrightarrow> i \<le> e"
    for rt :: "'n runtime" and lines ind headers i result rs e
  proof (induction rt lines ind headers i result arbitrary: rs e rule: parseTable_rows.induct)
    case (1 rt lines ind headers i result)
    show ?case
      using "1.prems" "1.IH"
      by (subst (asm) parseTable_rows.simps)
        (fastforce simp: Let_def split: if_splits sum.splits)
  qed
  have table: "parseTable rt lines s ind = Inr (rs, e) \<Longrightarrow> s \<le> e"
    for rt :: "'n runtime" and lines s ind rs e
    by (auto simp: parseTable_def Let_def split: if_splits prod.splits sum.splits dest!: rows)
  have next_table: "line_action rt lines b i = Table key n ind \<Longrightarrow> i < n \<and> n < length lines"
    for rt :: "'n runtime" and lines b i key n ind
    using skip[of "i + 1" lines] by (auto simp: line_action_def Let_def split: if_splits)
  have next_nested: "line_action rt lines b i = Nested key n ind \<Longrightarrow> i < n \<and> n < length lines"
    for rt :: "'n runtime" and lines b i key n ind
    using skip[of "i + 1" lines] by (auto simp: line_action_def Let_def split: if_splits)
  have index: "parseDocument_loop_dom (rt, lines, b, opts, i, result) \<Longrightarrow>
      parseDocument_loop rt lines b opts i result = Inr (res, e) \<Longrightarrow> i \<le> e"
    for rt :: "'n runtime" and lines b opts i result res e
  proof (induction rt lines b opts i result arbitrary: res e rule: parseDocument_loop.pinduct)
    case (1 rt lines b opts i result)
    show ?case
    proof (cases "i < length lines")
      case False
      then show ?thesis using "1.prems" "1.hyps" by (simp add: parseDocument_loop.psimps)
    next
      case True
      show ?thesis
      proof (cases "line_action rt lines b i")
        case Skip
        then show ?thesis using True "1.prems" "1.hyps" "1.IH"(1)[OF True Skip]
          by (fastforce simp add: parseDocument_loop.psimps)
      next
        case Break
        then show ?thesis using True "1.prems" "1.hyps"
          by (simp add: parseDocument_loop.psimps)
      next
        case (Assign key v)
        then show ?thesis using True "1.prems" "1.hyps" "1.IH"(2)[OF True Assign]
          by (fastforce simp add: parseDocument_loop.psimps split: sum.splits)
      next
        case (Table key n ind)
        then show ?thesis using True "1.prems" "1.hyps" "1.IH"(3)[OF True Table]
            next_table[OF Table]
          by (fastforce simp add: parseDocument_loop.psimps split: sum.splits prod.splits
              dest: table)
      next
        case (Nested key n ind)
        then show ?thesis using True "1.prems" "1.hyps" "1.IH"(4)[OF True Nested]
            "1.IH"(5)[OF True Nested] next_nested[OF Nested]
          by (fastforce simp add: parseDocument_loop.psimps split: sum.splits prod.splits)
      qed
    qed
  qed
  show ?thesis
  proof (relation "measure (\<lambda>(rt, lines, baseIndent, options, i, result). length lines - i)",
      goal_cases)
    case 1
    show ?case by simp
  next
    case 2
    then show ?case by simp
  next
    case 3
    then show ?case by simp
  next
    case (4 rt lines b opts i result key n ind tv x y)
    then show ?case
      using next_table[of rt lines b i key n ind] table[of rt lines n ind x y] by auto
  next
    case (5 rt lines b opts i result key n ind)
    then show ?case
      using next_nested[of rt lines b i key n ind] by auto
  next
    case (6 rt lines b opts i result key n ind nv x y)
    then show ?case
      using next_nested[of rt lines b i key n ind]
        index[of rt lines ind opts n "JObject []" x y]
      by auto
  qed
qed

declare parseDocument_loop.simps [simp del]

definition parseDocument ::
    "'n runtime \<Rightarrow> jsstring list \<Rightarrow> nat \<Rightarrow> nat \<Rightarrow> DecodeOptions \<Rightarrow> error + ('n json \<times> nat)" where
  "parseDocument rt lines startIndex baseIndent options =
     parseDocument_loop rt lines baseIndent options startIndex (JObject [])"

text \<open>A line that is empty after \<open>trim\<close> or starts with \<open>#\<close>.\<close>

definition blankOrComment :: "jsstring \<Rightarrow> bool" where
  "blankOrComment l \<longleftrightarrow> trim l = [] \<or> startsWith (trim l) (js ''#'')"

text \<open>The loop of \<open>decode\<close> that finds the first line with content.\<close>

function skipBlankOrComment :: "jsstring list \<Rightarrow> nat \<Rightarrow> nat" where
  "skipBlankOrComment lines startIndex =
     (if startIndex < length lines \<and> blankOrComment (lines ! startIndex)
      then skipBlankOrComment lines (startIndex + 1) else startIndex)"
  by pat_completeness auto
termination
  by (relation "measure (\<lambda>(lines, n). length lines - n)") auto

declare skipBlankOrComment.simps [simp del]

text \<open>
  \<open>decode\<close>. Its options are the caller's, merged over the defaults \<open>strict: true\<close> and
  \<open>indent: 2\<close>. An error is a TypeError that a sub-parser raised.
\<close>

definition decode :: "'n runtime \<Rightarrow> jsstring \<Rightarrow> DecodeOptions \<Rightarrow> error + 'n json" where
  "decode rt input options =
     (let normalized = replace1 13 [10] (replace2 13 10 [10] input);
          lines = split normalized [10]
      in if list_all blankOrComment lines then Inr (JObject [])
         else
           (let startIndex = skipBlankOrComment lines 0
            in if startIndex \<ge> length lines then Inr (JObject [])
               else
                 (let firstLine = trim (lines ! startIndex)
                  in if startsWith firstLine (js ''|'') then
                       (case parseTable rt lines startIndex 0 of
                          Inl e \<Rightarrow> Inl e
                        | Inr (tableValue, endIndex) \<Rightarrow> Inr (JArray tableValue))
                     else if startsWith firstLine (js ''_:'') then
                       (let valueStr = trim (slice_from firstLine 2)
                        in if valueStr = [] \<or> valueStr = js ''[]'' then
                             (if startIndex + 1 < length lines \<and> lines ! (startIndex + 1) \<noteq> [] \<and>
                                 startsWith (trim (lines ! (startIndex + 1))) (js ''|'')
                              then
                                (case parseTable rt lines (startIndex + 1) 2 of
                                   Inl e \<Rightarrow> Inl e
                                 | Inr (tableValue, endIndex) \<Rightarrow> Inr (JArray tableValue))
                              else Inr (JArray []))
                           else if str_includes valueStr (js '', '') then
                             Inr (JArray (map (\<lambda>v. parsePrimitive rt (trim v))
                                            (split valueStr (js '', ''))))
                           else Inr (JArray [parsePrimitive rt valueStr]))
                     else
                       (case parseDocument rt lines startIndex 0 options of
                          Inl e \<Rightarrow> Inl e
                        | Inr (result, endIndex) \<Rightarrow> Inr result))))"

section \<open>The validator\<close>

record ValidationError =
  line :: nat
  column :: nat
  message :: jsstring
  context' :: jsstring

record ValidationResult =
  valid :: bool
  errors :: "ValidationError list"

text \<open>
  \<open>lines[i]\<close> followed by a method call on the result: beyond the array the element is
  \<open>undefined\<close> and the call is a TypeError.
\<close>

definition line_at :: "jsstring list \<Rightarrow> nat \<Rightarrow> error + jsstring" where
  "line_at lines i = (if i < length lines then Inr (lines ! i) else Inl TypeError)"

text \<open>
  The \<open>for\<close> loop of \<open>validate\<close> at the index \<open>i\<close>, with the state \<open>inTable\<close>,
  \<open>tableColumns\<close> and the errors pushed so far.
\<close>

function validate_loop ::
    "jsstring list \<Rightarrow> nat \<Rightarrow> bool \<Rightarrow> nat \<Rightarrow> ValidationError list \<Rightarrow>
     error + ValidationError list" where
  "validate_loop lines i inTable tableColumns errs =
     (if i < length lines then
        (case line_at lines i of
           Inl e \<Rightarrow> Inl e
         | Inr l \<Rightarrow>
             (let lineNum = i + 1;
                  trimmed = trim l
              in if trimmed = [] \<or> startsWith trimmed (js ''#'')
                 then validate_loop lines (i + 1) inTable tableColumns errs
                 else
                   (let indent' = lineIndentOf l;
                        errs1 =
                          (if indent' mod 2 \<noteq> 0
                           then errs @
                             [\<lparr> line = lineNum, column = 1,
                                message = js ''Inconsistent indentation: '' @
                                  nat_to_string indent' @
                                  js '' spaces (should be multiple of 2)'',
                                context' = l \<rparr>]
                           else errs)
                    in if startsWith trimmed (js ''|'') then
                         (let pipes = length (split trimmed (js ''|'')) - 1;
                              errs2 =
                                (if inTable \<and> pipes \<noteq> tableColumns
                                 then errs1 @
                                   [\<lparr> line = lineNum, column = 1,
                                      message = js ''Table column mismatch: expected '' @
                                        int_to_string (int tableColumns - 1) @
                                        js '' columns, got '' @ int_to_string (int pipes - 1),
                                      context' = l \<rparr>]
                                 else errs1);
                              errs3 =
                                (if \<not> endsWith trimmed (js ''|'')
                                 then errs2 @
                                   [\<lparr> line = lineNum, column = length trimmed,
                                      message = js ''Table row must end with |'',
                                      context' = l \<rparr>]
                                 else errs2)
                          in validate_loop lines (i + 1) True
                               (if inTable then tableColumns else pipes) errs3)
                       else validate_loop lines (i + 1) False 0 errs1)))
      else Inr errs)"
  by pat_completeness auto
termination
  by (relation "measure (\<lambda>(lines, i, inTable, tableColumns, errs). length lines - i)") auto

declare validate_loop.simps [simp del]

definition validate :: "jsstring \<Rightarrow> error + ValidationResult" where
  "validate input =
     (let lines = split (replace1 13 [10] (replace2 13 10 [10] input)) [10]
      in case validate_loop lines 0 False 0 [] of
           Inl e \<Rightarrow> Inl e
         | Inr errs \<Rightarrow> Inr \<lparr> valid = (length errs = 0), errors = errs \<rparr>)"
section \<open>The encoder\<close>

definition isPrimitive :: "'n json \<Rightarrow> bool" where
  "isPrimitive v =
     (case v of JNull \<Rightarrow> True | JString s \<Rightarrow> True | JNumber n \<Rightarrow> True | JBool b \<Rightarrow> True
      | _ \<Rightarrow> False)"

text \<open>
  \<open>typeof v === 'object'\<close>: null, arrays, objects, and the prototype object that the name
  \<open>__proto__\<close> yields (the other inherited members are functions).
\<close>

definition typeof_object :: "'n json \<Rightarrow> bool" where
  "typeof_object v =
     (case v of JNull \<Rightarrow> True | JArray xs \<Rightarrow> True | JObject kvs \<Rightarrow> True
      | JObjectProto p kvs \<Rightarrow> True | JMember name \<Rightarrow> name = js ''__proto__''
      | _ \<Rightarrow> False)"

definition isArray :: "'n json \<Rightarrow> bool" where
  "isArray v = (case v of JArray xs \<Rightarrow> True | _ \<Rightarrow> False)"

text \<open>
  \<open>Object.keys\<close>, \<open>Object.values\<close> and \<open>obj[key]\<close>, on the values the encoder applies
  them to: objects that are not arrays. The prototype object has no enumerable property.
  Reading a key that the object does not own finds an inherited member or \<open>undefined\<close>.
  The encoder reads an object only at the keys that \<open>Object.keys\<close> lists for it, which
  are own properties.
\<close>

definition Object_keys :: "'n json \<Rightarrow> jsstring list" where
  "Object_keys v =
     (case v of JObject kvs \<Rightarrow> map fst kvs | JObjectProto p kvs \<Rightarrow> map fst kvs | _ \<Rightarrow> [])"

definition Object_values :: "'n json \<Rightarrow> 'n json list" where
  "Object_values v =
     (case v of JObject kvs \<Rightarrow> map snd kvs | JObjectProto p kvs \<Rightarrow> map snd kvs | _ \<Rightarrow> [])"

fun get_inherited :: "'n json \<Rightarrow> jsstring \<Rightarrow> 'n json" where
  "get_inherited (JObject kvs) key =
     (case map_of kvs key of
        Some v \<Rightarrow> v
      | None \<Rightarrow> if key \<in> set object_prototype_members then JMember key else JUndefined)"
| "get_inherited (JObjectProto p kvs) key =
     (case map_of kvs key of Some v \<Rightarrow> v | None \<Rightarrow> get_inherited p key)"
| "get_inherited (JMember name) key =
     (if key \<in> set object_prototype_members then JMember key else JUndefined)"
| "get_inherited (JArray xs) key =
     (if key \<in> set object_prototype_members then JMember key else JUndefined)"
| "get_inherited JNull key = JUndefined"
| "get_inherited JUndefined key = JUndefined"
| "get_inherited (JBool b) key = JUndefined"
| "get_inherited (JNumber n) key = JUndefined"
| "get_inherited (JString s) key = JUndefined"

definition get_property :: "'n json \<Rightarrow> jsstring \<Rightarrow> 'n json" where
  "get_property obj key =
     (case map_of (own_properties obj) key of
        Some v \<Rightarrow> v
      | None \<Rightarrow> get_inherited (prototype_of obj) key)"

text \<open>
  \<open>keys.sort().join(',')\<close>: the default order of \<open>sort\<close> compares strings by their code
  units, which is the lexicographic order of the lists.
\<close>

definition sorted_keys_text :: "'n json \<Rightarrow> jsstring" where
  "sorted_keys_text item = join (js '','') (sort (Object_keys item))"

definition isTableArray :: "'n json list \<Rightarrow> bool" where
  "isTableArray arr =
     (if arr = [] then False
      else if \<not> list_all (\<lambda>item. item \<noteq> JNull \<and> typeof_object item \<and> \<not> isArray item) arr
      then False
      else
        (let firstKeys = sorted_keys_text (hd arr);
             sameKeys = list_all (\<lambda>item. sorted_keys_text item = firstKeys) arr
         in if \<not> sameKeys then False
            else list_all (\<lambda>item. list_all isPrimitive (Object_values item)) arr))"

definition isPrimitiveArray :: "'n json list \<Rightarrow> bool" where
  "isPrimitiveArray arr = list_all isPrimitive arr"

text \<open>
  The \<open>length\<close> property of what \<open>formatPrimitive\<close> returned: the length of the string,
  or the \<open>length\<close> of the inherited member if it has one.
\<close>

definition value_length :: "'n runtime \<Rightarrow> 'n json \<Rightarrow> nat option" where
  "value_length rt v =
     (case v of JString s \<Rightarrow> Some (length s) | JMember name \<Rightarrow> member_length rt name
      | _ \<Rightarrow> None)"

text \<open>
  The inner loop of \<open>getColumnWidths\<close> over one row:
  \<open>widths[i] = Math.max(widths[i] || 0, row[i]?.length || 0)\<close>.
\<close>

fun widen :: "'n runtime \<Rightarrow> nat list \<Rightarrow> 'n json list \<Rightarrow> nat list" where
  "widen rt ws [] = ws"
| "widen rt [] (c # cs) =
     max 0 (case value_length rt c of Some n \<Rightarrow> n | None \<Rightarrow> 0) # widen rt [] cs"
| "widen rt (w # ws) (c # cs) =
     max w (case value_length rt c of Some n \<Rightarrow> n | None \<Rightarrow> 0) # widen rt ws cs"

definition getColumnWidths :: "'n runtime \<Rightarrow> jsstring list \<Rightarrow> 'n json list list \<Rightarrow> nat list" where
  "getColumnWidths rt headers rows = foldl (widen rt) (map length headers) rows"

text \<open>
  \<open>padCell(value, width)\<close>, where the width is \<open>widths[i]\<close> and may be missing. Without a
  width or a length the difference is not a number and nothing is appended.
\<close>

definition padCell :: "'n runtime \<Rightarrow> 'n json \<Rightarrow> nat option \<Rightarrow> jsstring" where
  "padCell rt v width =
     ToString rt v @
     (case (width, value_length rt v) of
        (Some w, Some n) \<Rightarrow> replicate (w - n) 32
      | _ \<Rightarrow> [])"

text \<open>\<open>cells.map((cell, i) => padCell(cell, widths[i]))\<close>.\<close>

fun padCells :: "'n runtime \<Rightarrow> 'n json list \<Rightarrow> nat list \<Rightarrow> jsstring list" where
  "padCells rt [] ws = []"
| "padCells rt (c # cs) [] = padCell rt c None # padCells rt cs []"
| "padCells rt (c # cs) (w # ws) = padCell rt c (Some w) # padCells rt cs ws"

definition indentText :: "EncodeOptions \<Rightarrow> jsstring" where
  "indentText options =
     replicate (if EncodeOptions.indent options = 0 then 2 else EncodeOptions.indent options) 32"

definition tableLine :: "jsstring \<Rightarrow> jsstring list \<Rightarrow> jsstring" where
  "tableLine baseIndent cells = baseIndent @ js ''| '' @ join (js '' | '') cells @ js '' |''"

definition encodeTable :: "'n runtime \<Rightarrow> 'n json list \<Rightarrow> EncodeOptions \<Rightarrow> nat \<Rightarrow> jsstring" where
  "encodeTable rt arr options indentLevel =
     (if arr = [] then js ''| |''
      else
        (let baseIndent = concat (replicate indentLevel (indentText options));
             headers = Object_keys (hd arr);
             rows = map (\<lambda>obj. map (\<lambda>h. formatPrimitive rt (get_property obj h) options True)
                                   headers) arr;
             widths = getColumnWidths rt headers rows;
             headerCells = padCells rt (map JString headers) widths
         in join [10]
              (tableLine baseIndent headerCells #
               map (\<lambda>row. tableLine baseIndent (padCells rt row widths)) rows)))"

text \<open>The elements of an array.\<close>

definition elements :: "'n json \<Rightarrow> 'n json list" where
  "elements v = (case v of JArray xs \<Rightarrow> xs | _ \<Rightarrow> [])"

text \<open>
  \<open>encodeValue\<close>. Its first branch, for a value that is not an object, is not reached from
  \<open>encode\<close>, which formats such a value itself; the branch gives the text of what
  \<open>formatPrimitive\<close> returns.
\<close>

function encodeValue :: "'n runtime \<Rightarrow> 'n json \<Rightarrow> EncodeOptions \<Rightarrow> nat \<Rightarrow> jsstring" where
  "encodeValue rt v options indentLevel =
     (let indent' = indentText options;
          baseIndent = concat (replicate indentLevel indent')
      in if v = JNull \<or> \<not> typeof_object v then ToString rt (formatPrimitive rt v options False)
         else if isArray v then
           (if elements v = [] then js ''[]''
            else if isPrimitiveArray (elements v)
            then join (js '', '')
                   (map (\<lambda>x. ToString rt (formatPrimitive rt x options False)) (elements v))
            else if isTableArray (elements v)
            then [10] @ encodeTable rt (elements v) options (indentLevel + 1)
            else
              [10] @ join [10] (concat (map (\<lambda>item.
                if item = JNull \<or> \<not> typeof_object item
                then [baseIndent @ indent' @ js ''- '' @
                        ToString rt (formatPrimitive rt item options False)]
                else
                  (let encoded = encodeValue rt item options (indentLevel + 2)
                   in if str_includes encoded [10]
                      then [baseIndent @ indent' @ js ''-'', encoded]
                      else [baseIndent @ indent' @ js ''- '' @ encoded])) (elements v))))
         else
           (let keys = (if sortKeys options then sort (Object_keys v) else Object_keys v)
            in if keys = [] then []
               else
                 join [10] (concat (map (\<lambda>key.
                   (let val = get_property v key
                    in if val = JNull then [baseIndent @ key @ js '': null'']
                       else if \<not> typeof_object val
                       then [baseIndent @ key @ js '': '' @
                               ToString rt (formatPrimitive rt val options False)]
                       else if isArray val then
                         (if elements val = [] then [baseIndent @ key @ js '': []'']
                          else if isPrimitiveArray (elements val)
                          then [baseIndent @ key @ js '': '' @
                                  join (js '', '')
                                    (map (\<lambda>x. ToString rt (formatPrimitive rt x options False))
                                       (elements val))]
                          else [baseIndent @ key @ js '':'' @
                                  encodeValue rt val options indentLevel])
                       else
                         (let nested = encodeValue rt val options (indentLevel + 1)
                          in if nested = [] then [baseIndent @ key @ js '':'']
                             else if str_includes nested [10]
                             then [baseIndent @ key @ js '':'', nested]
                             else [baseIndent @ key @ js '': '' @ nested]))) keys))))"
  by pat_completeness auto
termination
proof -
  have item: "x \<in> set (elements v) \<Longrightarrow> size x < size v" for x v :: "'n json"
  proof (cases v)
    case (JArray xs)
    assume "x \<in> set (elements v)"
    then have "x \<in> set xs" using JArray by (simp add: elements_def)
    then have "size x < size (JArray xs)" by (induction xs) auto
    then show ?thesis using JArray by simp
  qed (simp_all add: elements_def)
  have val: "key \<in> set (Object_keys v) \<Longrightarrow> size (get_property v key) < size v"
    for key and v :: "'n json"
  proof (cases v)
    case (JObject kvs)
    assume "key \<in> set (Object_keys v)"
    then have "key \<in> fst ` set kvs" using JObject by (simp add: Object_keys_def)
    then obtain w where w: "map_of kvs key = Some w"
      by (metis domD dom_map_of_conv_image_fst)
    then have "(key, w) \<in> set kvs" by (rule map_of_SomeD)
    then have "size w < size (JObject kvs)" by (induction kvs) auto
    then show ?thesis using JObject w by (simp add: get_property_def own_properties_def)
  next
    case (JObjectProto p kvs)
    assume "key \<in> set (Object_keys v)"
    then have "key \<in> fst ` set kvs" using JObjectProto by (simp add: Object_keys_def)
    then obtain w where w: "map_of kvs key = Some w"
      by (metis domD dom_map_of_conv_image_fst)
    then have "(key, w) \<in> set kvs" by (rule map_of_SomeD)
    then have "size w < size (JObjectProto p kvs)" by (induction kvs) auto
    then show ?thesis using JObjectProto w by (simp add: get_property_def own_properties_def)
  qed (simp_all add: Object_keys_def)
  show ?thesis
    by (relation "measure (\<lambda>(rt, v, options, indentLevel). size v)")
      (auto simp: item val split: if_splits)
qed

declare encodeValue.simps [simp del]

text \<open>
  \<open>encode\<close>. Its options are the caller's, merged over the defaults. The result is what
  \<open>formatPrimitive\<close> returns when the value is not an object, and a string otherwise.
\<close>

definition encode :: "'n runtime \<Rightarrow> 'n json \<Rightarrow> EncodeOptions \<Rightarrow> 'n json" where
  "encode rt v options =
     (if v = JNull \<or> v = JUndefined then JString (js ''null'')
      else if \<not> typeof_object v then formatPrimitive rt v options False
      else if isArray v then
        (if elements v = [] then JString (js ''_: []'')
         else if isPrimitiveArray (elements v)
         then JString (js ''_: '' @
                join (js '', '')
                  (map (\<lambda>x. ToString rt (formatPrimitive rt x options False)) (elements v)))
         else if isTableArray (elements v)
         then JString (js ''_:'' @ [10] @ encodeTable rt (elements v) options 1)
         else JString (js ''_:'' @ encodeValue rt v options 0))
      else JString (encodeValue rt v options 0))"


section \<open>A runtime for running the model\<close>

text \<open>
  To run the model on a concrete document the runtime has to be given. \<open>integer_runtime\<close>
  is the JavaScript runtime restricted to what the documents of the concrete runs below
  contain: numbers that are integers of magnitude below \<open>2^53\<close>, number literals that
  are plain decimal integers (an optional minus sign and digits), and ASCII text. On any
  other literal \<open>string_to_number\<close> is not \<open>Number\<close>, and no run below applies it to
  one. The text of a built-in function is left to the implementation by the standard; the
  one given here is that of V8, where the member \<open>constructor\<close> is the function
  \<open>Object\<close>. The \<open>length\<close> of a function is its number of parameters, and the
  prototype object has no \<open>length\<close>.
\<close>

definition integer_runtime :: "int runtime" where
  "integer_runtime =
     \<lparr> number_to_string = int_to_string,
       string_to_number =
         (\<lambda>s. if s \<noteq> [] \<and> hd s = 45 then - decimal_value (tl s) else decimal_value s),
       is_finite = (\<lambda>n. True),
       unicode_lower = (\<lambda>s. s),
       member_text =
         (\<lambda>name. if name = js ''__proto__'' then js ''[object Object]''
                 else js ''function '' @
                      (if name = js ''constructor'' then js ''Object'' else name) @
                      js ''() { [native code] }''),
       member_length =
         (\<lambda>name. if name = js ''__proto__'' then None
                 else if name \<in> {js ''__defineGetter__'', js ''__defineSetter__''} then Some 2
                 else if name \<in> {js ''toString'', js ''valueOf'', js ''toLocaleString''}
                 then Some 0
                 else Some 1) \<rparr>"

section \<open>Notions of the specification\<close>

text \<open>
  The plain-decimal-number shape in the words of the specification: an optional minus sign,
  one or more digits, an optional dot, and further digits.
\<close>

definition plain_decimal_shape :: "jsstring \<Rightarrow> bool" where
  "plain_decimal_shape s \<longleftrightarrow>
     (\<exists>sign ds dot fs. s = sign @ ds @ dot @ fs \<and> (sign = [] \<or> sign = [45]) \<and>
        ds \<noteq> [] \<and> list_all isDigit ds \<and> (dot = [] \<or> dot = [46]) \<and> list_all isDigit fs)"


text \<open>
  What a character has become after the first \<open>k\<close> of the five replacements of
  \<open>unescapeString\<close> have run over its escaped form.
\<close>

definition unescape_stage :: "nat \<Rightarrow> 16 word \<Rightarrow> jsstring" where
  "unescape_stage k c =
     (if c = 92 then (if k < 5 then [92, 92] else [92])
      else if c = 34 then (if k < 4 then [92, 34] else [34])
      else if c = 9 then (if k < 3 then [92, 116] else [9])
      else if c = 13 then (if k < 2 then [92, 114] else [13])
      else if c = 10 then (if k < 1 then [92, 110] else [10])
      else [c])"


text \<open>
  The lines that the loop of \<open>parseTable\<close> goes through: those that start with the
  table marker after \<open>trim\<close> and are not less indented than the header. The cells of
  such a line are its fields, trimmed and parsed.
\<close>

definition continues_table :: "nat \<Rightarrow> jsstring \<Rightarrow> bool" where
  "continues_table indent' l \<longleftrightarrow> startsWith (trim l) (js ''|'') \<and> \<not> lineIndentOf l < indent'"

definition row_cells :: "'n runtime \<Rightarrow> jsstring \<Rightarrow> 'n json list" where
  "row_cells rt l = map (\<lambda>c. parsePrimitive rt (trim c)) (pipe_fields (trim l))"

text \<open>
  What \<open>validate\<close> accepts, said of the lines. A line has content when it is not blank
  and no comment. Every line with content is indented by an even number of characters; a
  table row, which is a line with content that starts with a pipe after \<open>trim\<close>, ends
  with a pipe; and a table row that follows another table row, with nothing but blank lines
  and comments between them, has as many pipes as that row. \<open>accepts prev ls\<close> says this
  of the lines \<open>ls\<close>, where \<open>prev\<close> is the number of pipes of the table row before
  them, if the last line with content before them is one.
\<close>

definition pipe_count :: "jsstring \<Rightarrow> nat" where
  "pipe_count l = length (filter (\<lambda>c. c = 124) (trim l))"

fun accepts :: "nat option \<Rightarrow> jsstring list \<Rightarrow> bool" where
  "accepts prev [] = True"
| "accepts prev (l # ls) =
     (if blankOrComment l then accepts prev ls
      else even (lineIndentOf l) \<and>
           (if startsWith (trim l) (js ''|'')
            then endsWith (trim l) (js ''|'') \<and>
                 (case prev of None \<Rightarrow> True | Some n \<Rightarrow> pipe_count l = n) \<and>
                 accepts (Some (pipe_count l)) ls
            else accepts None ls))"

text \<open>An object that is not an array: one built by an object literal and assignments.\<close>

definition plain_object :: "'n json \<Rightarrow> bool" where
  "plain_object v = (case v of JObject kvs \<Rightarrow> True | JObjectProto p kvs \<Rightarrow> True | _ \<Rightarrow> False)"

text \<open>The input with its line breaks made uniform, as \<open>decode\<close> and \<open>validate\<close> split it.\<close>

definition normalize :: "jsstring \<Rightarrow> jsstring" where
  "normalize s = replace1 13 [10] (replace2 13 10 [10] s)"

section \<open>Strings\<close>

lemma str_includes_unit: "str_includes s [c] \<longleftrightarrow> c \<in> set s"
  by (induction s) (auto simp: str_includes_def sublist_Cons_right)

lemma js_unit [simp]: "js ''|'' = [124]" "js '','' = [44]" "js '':'' = [58]" "js '' '' = [32]"
  "js ''-'' = [45]" "js ''?'' = [63]"
  by (simp_all add: js_def)

lemma takeWhile_all: "list_all P xs \<Longrightarrow> takeWhile P (xs @ ys) = xs @ takeWhile P ys"
  by (induction xs) auto

lemma dropWhile_all: "list_all P xs \<Longrightarrow> dropWhile P (xs @ ys) = dropWhile P ys"
  by (induction xs) auto

lemma plainNumber_shape_1: "plainNumber s \<Longrightarrow> plain_decimal_shape s"
proof -
  assume a: "plainNumber s"
  define sign where "sign = (if s \<noteq> [] \<and> hd s = 45 then [45::16 word] else [])"
  define s1 where "s1 = (if s \<noteq> [] \<and> hd s = 45 then tl s else s)"
  define r where "r = dropWhile isDigit s1"
  define dot where "dot = (if r \<noteq> [] \<and> hd r = 46 then [46::16 word] else [])"
  define r1 where "r1 = (if r \<noteq> [] \<and> hd r = 46 then tl r else r)"
  have 1: "s = sign @ s1" by (cases s) (auto simp: sign_def s1_def)
  have 2: "s1 = takeWhile isDigit s1 @ r" by (simp add: r_def)
  have 3: "r = dot @ r1" by (cases r) (auto simp: dot_def r1_def)
  have 4: "takeWhile isDigit s1 \<noteq> []" "list_all isDigit r1"
    using a unfolding plainNumber_def Let_def s1_def r_def r1_def by blast+
  have 5: "list_all isDigit (takeWhile isDigit s1)"
    by (simp add: list_all_iff) (meson set_takeWhileD)
  have "s = sign @ takeWhile isDigit s1 @ dot @ r1" using 1 2 3 by simp
  moreover have "sign = [] \<or> sign = [45]" "dot = [] \<or> dot = [46]" by (auto simp: sign_def dot_def)
  ultimately show ?thesis unfolding plain_decimal_shape_def using 4 5 by blast
qed

lemma plainNumber_shape_2: "plain_decimal_shape s \<Longrightarrow> plainNumber s"
proof -
  assume "plain_decimal_shape s"
  then obtain sign ds dot fs where s: "s = sign @ ds @ dot @ fs" and sg: "sign = [] \<or> sign = [45]"
    and ds: "ds \<noteq> []" "list_all isDigit ds" and dt: "dot = [] \<or> dot = [46]" and fs: "list_all isDigit fs"
    unfolding plain_decimal_shape_def by blast
  have hd: "hd ds \<noteq> 45" using ds by (cases ds) (auto simp: isDigit_def)
  have s1: "(if s \<noteq> [] \<and> hd s = 45 then tl s else s) = ds @ dot @ fs"
    using sg s ds hd by (cases ds) auto
  have tw: "takeWhile isDigit (ds @ dot @ fs) = ds @ (if dot = [] then fs else [])"
    using ds fs dt by (auto simp: takeWhile_all isDigit_def list_all_iff)
  have dw: "dropWhile isDigit (ds @ dot @ fs) = (if dot = [] then [] else dot @ fs)"
    using ds fs dt by (auto simp: dropWhile_all isDigit_def list_all_iff)
  show ?thesis
    unfolding plainNumber_def Let_def s1 tw dw using ds fs dt by auto
qed

lemma prefix_unit: "prefix [c] s \<longleftrightarrow> s \<noteq> [] \<and> hd s = c"
  by (cases s) auto

lemma suffix_unit: "suffix [c] s \<longleftrightarrow> s \<noteq> [] \<and> last s = c"
  by (cases s rule: rev_cases) auto

lemma replace1_concat_map:
  "replace1 c r (concat (map f s)) = concat (map (\<lambda>x. replace1 c r (f x)) s)"
  by (induction s) (simp_all add: replace1_def)

lemma escapeString_stage: "escapeString s = concat (map (unescape_stage 0) s)"
proof -
  have "escapeString s =
    concat (map (\<lambda>x. replace1 9 [92, 116] (replace1 13 [92, 114] (replace1 10 [92, 110]
       (replace1 34 [92, 34] (if x = 92 then [92, 92] else [x]))))) s)"
    unfolding escapeString_def replace1_def[of 92] replace1_concat_map ..
  also have "\<dots> = concat (map (unescape_stage 0) s)"
    by (intro arg_cong[where f = concat] map_cong refl) (simp add: replace1_def unescape_stage_def)
  finally show ?thesis .
qed

lemma replace2_other: "x \<noteq> a \<Longrightarrow> replace2 a b r (x # ys) = x # replace2 a b r ys"
  by (cases ys) auto

lemma replace2_first: "ys = [] \<or> hd ys \<noteq> b \<Longrightarrow> replace2 a b r (a # ys) = a # replace2 a b r ys"
  by (cases ys) auto

lemma stage_apply:
  "unescape_stage k c =
     (if c = 92 then (if k < 5 then [92, 92] else [92])
      else if c = 34 then (if k < 4 then [92, 34] else [34])
      else if c = 9 then (if k < 3 then [92, 116] else [9])
      else if c = 13 then (if k < 2 then [92, 114] else [13])
      else if c = 10 then (if k < 1 then [92, 110] else [10])
      else [c])"
  by (simp add: unescape_stage_def)

lemma no_pair_Cons:
  "\<not> sublist [a, b] (c # cs) \<longleftrightarrow> \<not> sublist [a, b] cs \<and> \<not> (c = a \<and> cs \<noteq> [] \<and> hd cs = b)"
  by (cases cs) (auto simp: sublist_Cons_right)

lemma unescape_step1:
  "\<not> sublist [92, 110] s \<Longrightarrow>
   replace2 92 110 [10] (concat (map (unescape_stage 0) s)) = concat (map (unescape_stage 1) s)"
proof (induction s)
  case Nil
  then show ?case by simp
next
  case (Cons c cs)
  define rest where "rest = concat (map (unescape_stage 0) cs)"
  define rest' where "rest' = concat (map (unescape_stage 1) cs)"
  have ih: "replace2 92 110 [10] rest = rest'"
    and nx: "\<not> (c = 92 \<and> cs \<noteq> [] \<and> hd cs = 110)"
    using Cons by (simp_all add: no_pair_Cons rest_def rest'_def)
  have hd: "c = 92 \<Longrightarrow> rest = [] \<or> hd rest \<noteq> 110"
    using nx by (cases cs) (auto simp: stage_apply rest_def)
  have "replace2 92 110 [10] (unescape_stage 0 c @ rest) = unescape_stage 1 c @ rest'"
    using ih hd by (auto simp: stage_apply replace2_other replace2_first)
  then show ?case by (simp add: rest_def rest'_def)
qed

lemma unescape_step2:
  "\<not> sublist [92, 114] s \<Longrightarrow>
   replace2 92 114 [13] (concat (map (unescape_stage 1) s)) = concat (map (unescape_stage 2) s)"
proof (induction s)
  case Nil
  then show ?case by simp
next
  case (Cons c cs)
  define rest where "rest = concat (map (unescape_stage 1) cs)"
  define rest' where "rest' = concat (map (unescape_stage 2) cs)"
  have ih: "replace2 92 114 [13] rest = rest'"
    and nx: "\<not> (c = 92 \<and> cs \<noteq> [] \<and> hd cs = 114)"
    using Cons by (simp_all add: no_pair_Cons rest_def rest'_def)
  have hd: "c = 92 \<Longrightarrow> rest = [] \<or> hd rest \<noteq> 114"
    using nx by (cases cs) (auto simp: stage_apply rest_def)
  have "replace2 92 114 [13] (unescape_stage 1 c @ rest) = unescape_stage 2 c @ rest'"
    using ih hd by (auto simp: stage_apply replace2_other replace2_first)
  then show ?case by (simp add: rest_def rest'_def)
qed

lemma unescape_step3:
  "\<not> sublist [92, 116] s \<Longrightarrow>
   replace2 92 116 [9] (concat (map (unescape_stage 2) s)) = concat (map (unescape_stage 3) s)"
proof (induction s)
  case Nil
  then show ?case by simp
next
  case (Cons c cs)
  define rest where "rest = concat (map (unescape_stage 2) cs)"
  define rest' where "rest' = concat (map (unescape_stage 3) cs)"
  have ih: "replace2 92 116 [9] rest = rest'"
    and nx: "\<not> (c = 92 \<and> cs \<noteq> [] \<and> hd cs = 116)"
    using Cons by (simp_all add: no_pair_Cons rest_def rest'_def)
  have hd: "c = 92 \<Longrightarrow> rest = [] \<or> hd rest \<noteq> 116"
    using nx by (cases cs) (auto simp: stage_apply rest_def)
  have "replace2 92 116 [9] (unescape_stage 2 c @ rest) = unescape_stage 3 c @ rest'"
    using ih hd by (auto simp: stage_apply replace2_other replace2_first)
  then show ?case by (simp add: rest_def rest'_def)
qed

lemma unescape_step4:
  "replace2 92 34 [34] (concat (map (unescape_stage 3) s)) = concat (map (unescape_stage 4) s)"
proof (induction s)
  case Nil
  then show ?case by simp
next
  case (Cons c cs)
  define rest where "rest = concat (map (unescape_stage 3) cs)"
  define rest' where "rest' = concat (map (unescape_stage 4) cs)"
  have ih: "replace2 92 34 [34] rest = rest'"
    using Cons by (simp_all add: rest_def rest'_def)
  have hd: "rest = [] \<or> hd rest \<noteq> 34"
    by (cases cs) (auto simp: stage_apply rest_def)
  have "replace2 92 34 [34] (unescape_stage 3 c @ rest) = unescape_stage 4 c @ rest'"
    using ih hd by (auto simp: stage_apply replace2_other replace2_first)
  then show ?case by (simp add: rest_def rest'_def)
qed

lemma unescape_step5:
  "replace2 92 92 [92] (concat (map (unescape_stage 4) s)) = s"
proof (induction s)
  case Nil
  then show ?case by simp
next
  case (Cons c cs)
  define rest where "rest = concat (map (unescape_stage 4) cs)"
  have ih: "replace2 92 92 [92] rest = cs"
    using Cons by (simp_all add: rest_def)
  have "replace2 92 92 [92] (unescape_stage 4 c @ rest) = c # cs"
    using ih by (auto simp: stage_apply replace2_other)
  then show ?case by (simp add: rest_def)
qed

lemma unescape_escape:
  assumes "\<not> sublist [92, 110] s" "\<not> sublist [92, 114] s" "\<not> sublist [92, 116] s"
  shows "unescapeString (escapeString s) = s"
  unfolding unescapeString_def escapeString_stage
  by (simp only: unescape_step1[OF assms(1)] unescape_step2[OF assms(2)]
        unescape_step3[OF assms(3)] unescape_step4 unescape_step5)

lemma trimStart_id: "s = [] \<or> \<not> isWhiteSpace (hd s) \<Longrightarrow> trimStart s = s"
  by (cases s) (auto simp: trimStart_def)

lemma trimEnd_id: "s = [] \<or> \<not> isWhiteSpace (last s) \<Longrightarrow> trimEnd s = s"
  by (cases s rule: rev_cases) (auto simp: trimEnd_def)

lemma trim_id: "s = [] \<or> \<not> isWhiteSpace (hd s) \<and> \<not> isWhiteSpace (last s) \<Longrightarrow> trim s = s"
  by (auto simp: trim_def trimStart_id trimEnd_id)

lemma slice_inner: "slice xs 1 (- 1) = butlast (tl xs)"
  by (cases xs) (auto simp: slice_def Let_def butlast_conv_take max_def min_def nat_diff_distrib')

lemma sublist_url: "sublist (js ''://'') s \<longleftrightarrow> (\<exists>p q. s = p @ js ''://'' @ q)"
  by (simp add: sublist_def)

lemma if_True_disj: "(if P then True else Q) \<longleftrightarrow> P \<or> Q"
  by simp

lemma sublist_unit: "sublist [c] s \<longleftrightarrow> c \<in> set s"
  by (induction s) (auto simp: sublist_Cons_right)

lemma needsQuoting_disj:
  "needsQuoting rt s \<longleftrightarrow>
     s = [] \<or> (prefix [32] s \<or> suffix [32] s) \<or> (124 \<in> set s \<or> 10 \<in> set s \<or> 13 \<in> set s) \<or>
     44 \<in> set s \<or> plainNumber s \<or>
     toLowerCase rt s \<in> set [js ''true'', js ''false'', js ''null''] \<or>
     (58 \<in> set s \<and> \<not> sublist (js ''://'') s) \<or> 34 \<in> set s"
  unfolding needsQuoting_def if_True_disj startsWith_def endsWith_def str_includes_def js_unit
    sublist_unit
  by simp

text \<open>
  Claim C7, as the code has it. \<open>needsQuoting\<close> holds exactly when the string is empty,
  starts or ends with a space, contains a pipe, a newline, a carriage return or a comma, has
  the plain-decimal-number shape, is \<open>true\<close>, \<open>false\<close> or \<open>null\<close> in lower case,
  contains a double quote, or contains a colon while no \<open>://\<close> occurs anywhere in it.
  In particular every string with a colon and without any \<open>://\<close> is quoted.
\<close>

theorem needsQuoting_triggers:
  "(needsQuoting rt s \<longleftrightarrow>
      s = [] \<or> hd s = 32 \<or> last s = 32 \<or> 124 \<in> set s \<or> 10 \<in> set s \<or> 13 \<in> set s \<or>
      44 \<in> set s \<or> plain_decimal_shape s \<or>
      toLowerCase rt s \<in> {js ''true'', js ''false'', js ''null''} \<or>
      (58 \<in> set s \<and> \<not> (\<exists>p q. s = p @ js ''://'' @ q)) \<or> 34 \<in> set s) \<and>
   (58 \<in> set s \<and> \<not> (\<exists>p q. s = p @ js ''://'' @ q) \<longrightarrow> needsQuoting rt s)"
proof -
  have shape: "plainNumber s = plain_decimal_shape s"
    using plainNumber_shape_1 plainNumber_shape_2 by blast
  have mem: "toLowerCase rt s \<in> set [js ''true'', js ''false'', js ''null''] \<longleftrightarrow>
      toLowerCase rt s \<in> {js ''true'', js ''false'', js ''null''}"
    by simp
  show ?thesis
    unfolding needsQuoting_disj prefix_unit suffix_unit shape sublist_url mem
    by blast
qed

text \<open>The string \<open>a: b\<close> has a colon and no \<open>://\<close>, and is quoted.\<close>

theorem needsQuoting_triggers_witness:
  "needsQuoting integer_runtime (js ''a: b'')"
proof -
  have "58 \<in> set (js ''a: b'')" by (simp add: js_def)
  moreover have "\<not> (\<exists>p q. js ''a: b'' = p @ js ''://'' @ q)"
    unfolding sublist_url[symmetric] by code_simp
  ultimately show ?thesis
    using needsQuoting_triggers[of integer_runtime "js ''a: b''"] by blast
qed

text \<open>
  Claim C7 as stated fails: in \<open>a:b://c\<close> the colon at index 1 is followed by \<open>b:\<close>, so
  it is not part of a \<open>://\<close>, but the \<open>://\<close> further on switches the colon test off and
  the string is not quoted.
\<close>

theorem needsQuoting_colon_counterexample:
  "js ''a:b://c'' ! 1 = 58 \<and> take 3 (drop 1 (js ''a:b://c'')) \<noteq> js ''://'' \<and>
   \<not> needsQuoting integer_runtime (js ''a:b://c'')"
  by code_simp

text \<open>
  Claim C8. In a table cell both null and the empty string are formatted as \<open>-\<close>, whatever
  the options, and \<open>parsePrimitive\<close> turns the text \<open>-\<close> into null.
\<close>

theorem null_normalization:
  "formatPrimitive rt JNull options True = JString (js ''-'') \<and>
   formatPrimitive rt (JString []) options True = JString (js ''-'') \<and>
   parsePrimitive rt (js ''-'') = JNull"
  by (simp add: formatPrimitive_def parsePrimitive_def toLowerCase_def lookup_def
      STATUS_SYMBOLS_def object_prototype_members_def js_def trim_def trimStart_def trimEnd_def
      isWhiteSpace_def)

text \<open>The same in compact mode with four spaces of indentation.\<close>

theorem null_normalization_witness:
  "formatPrimitive integer_runtime JNull \<lparr>EncodeOptions.indent = 4, compact = True, sortKeys = False\<rparr> True
     = JString (js ''-'') \<and>
   formatPrimitive integer_runtime (JString []) \<lparr>EncodeOptions.indent = 4, compact = True, sortKeys = False\<rparr> True
     = JString (js ''-'') \<and>
   parsePrimitive integer_runtime (js ''-'') = JNull"
  using null_normalization[of integer_runtime "\<lparr>EncodeOptions.indent = 4, compact = True, sortKeys = False\<rparr>"]
  by simp

lemma toLowerCase_keywords:
  "toLowerCase rt (js ''null'') = js ''null''"
  "toLowerCase rt (js ''true'') = js ''true''"
  "toLowerCase rt (js ''false'') = js ''false''"
  by (simp_all add: toLowerCase_def js_def)

lemma lookup_reverse_quoted: "lookup REVERSE_SYMBOLS (34 # x) = Missing"
  by (simp add: lookup_def REVERSE_SYMBOLS_def object_prototype_members_def js_def)

lemma parsePrimitive_quoted:
  "parsePrimitive rt (34 # e @ [34]) = JString (unescapeString e)"
proof -
  have t: "trim (34 # e @ [34]) = 34 # e @ [34]"
    by (rule trim_id) (simp add: isWhiteSpace_def)
  show ?thesis
    unfolding parsePrimitive_def t Let_def
    by (simp add: js_def lookup_reverse_quoted startsWith_def endsWith_def suffix_unit
        slice_inner butlast_append)
qed

lemma parsePrimitive_plain:
  assumes "\<not> needsQuoting rt s" "trim s = s" "s \<noteq> js ''-''" "lookup REVERSE_SYMBOLS s = Missing"
    "\<not> (numberLiteral s \<and> is_finite rt (string_to_number rt s))"
  shows "parsePrimitive rt s = JString s"
proof -
  from assms(1) have ne: "s \<noteq> []" and q: "34 \<notin> set s"
    and kw: "toLowerCase rt s \<notin> set [js ''true'', js ''false'', js ''null'']"
    unfolding needsQuoting_disj by blast+
  from kw have k: "s \<noteq> js ''null''" "s \<noteq> js ''true''" "s \<noteq> js ''false''"
    using toLowerCase_keywords[of rt] by auto
  have sw: "\<not> startsWith s [34]"
    using q by (cases s) (auto simp: startsWith_def)
  show ?thesis
    unfolding parsePrimitive_def assms(2) Let_def
    using ne k sw assms(3,4,5) by simp
qed

text \<open>
  Claim C3 does not hold of the code. The string \<open>-\<close> is no keyword of the compact
  mode, is not \<open>true\<close>, \<open>false\<close> or \<open>null\<close>, and has no digit, so it has not the
  shape of a number. \<open>needsQuoting\<close>, which quotes the empty string, \<open>null\<close>,
  \<open>true\<close> and \<open>42\<close> so that they are read back as strings, does not quote it:
  \<open>formatPrimitive\<close> writes it as it is, and \<open>parsePrimitive\<close> reads the text
  \<open>-\<close> as null.
\<close>

theorem dash_is_read_back_as_null:
  "\<not> truthy (lookup STATUS_SYMBOLS (toLowerCase integer_runtime (js ''-''))) \<and>
   toLowerCase integer_runtime (js ''-'') \<notin> {js ''true'', js ''false'', js ''null''} \<and>
   \<not> plainNumber (js ''-'') \<and>
   \<not> needsQuoting integer_runtime (js ''-'') \<and>
   formatPrimitive integer_runtime (JString (js ''-'')) default_encode_options False
     = JString (js ''-'') \<and>
   parsePrimitive integer_runtime (js ''-'') = JNull"
  by code_simp

text \<open>
  Further strings that do not come back: a symbol of the reverse table, a string with a
  leading tab, and a quoted string with a backslash before \<open>n\<close>, here \<open>C:\new\<close>:
  \<open>unescapeString\<close> replaces one kind of pair after the other over the whole text
  instead of reading the text once from the left, and takes the second backslash of the
  escaped pair with the \<open>n\<close> for an escaped newline.
\<close>

lemma round_trip_fails_on_symbol:
  "formatPrimitive integer_runtime (JString (js ''?'')) default_encode_options False
     = JString (js ''?'') \<and>
   parsePrimitive integer_runtime (js ''?'') = JString (js ''unknown'')"
  by code_simp

lemma round_trip_fails_on_tab:
  "formatPrimitive integer_runtime (JString [9, 97]) default_encode_options False
     = JString [9, 97] \<and>
   parsePrimitive integer_runtime [9, 97] = JString [97]"
  by code_simp

lemma round_trip_fails_on_backslash:
  "formatPrimitive integer_runtime (JString [67, 58, 92, 110, 101, 119]) default_encode_options False
     = JString [34, 67, 58, 92, 92, 110, 101, 119, 34] \<and>
   parsePrimitive integer_runtime [34, 67, 58, 92, 92, 110, 101, 119, 34]
     = JString [67, 58, 92, 10, 101, 119]"
  by code_simp

text \<open>
  The strings that do come back. Let \<open>s\<close> be a string that compact mode does not turn
  into a symbol. If \<open>s\<close> is quoted and no backslash in it is followed by \<open>n\<close>, \<open>r\<close>
  or \<open>t\<close>, or if it is not quoted, has no white space of any kind at either end, differs
  from \<open>-\<close>, is neither a symbol that \<open>REVERSE_SYMBOLS\<close> maps back nor the name of a
  member of \<open>Object.prototype\<close>, and is not a number literal with fraction or exponent
  of a finite number, then \<open>parsePrimitive\<close> gives \<open>s\<close> back.
\<close>

lemma strings_that_come_back:
  assumes "\<not> (compact options \<and> truthy (lookup STATUS_SYMBOLS (toLowerCase rt s)))"
    and "needsQuoting rt s \<Longrightarrow>
           \<not> sublist [92, 110] s \<and> \<not> sublist [92, 114] s \<and> \<not> sublist [92, 116] s"
    and "\<not> needsQuoting rt s \<Longrightarrow>
           trim s = s \<and> s \<noteq> js ''-'' \<and> lookup REVERSE_SYMBOLS s = Missing \<and>
           \<not> (numberLiteral s \<and> is_finite rt (string_to_number rt s))"
  shows "\<exists>t. formatPrimitive rt (JString s) options False = JString t \<and>
             parsePrimitive rt t = JString s"
proof (cases "needsQuoting rt s")
  case True
  then have "formatPrimitive rt (JString s) options False = JString (34 # escapeString s @ [34])"
    using assms(1) by (auto simp: formatPrimitive_def)
  moreover have "parsePrimitive rt (34 # escapeString s @ [34]) = JString s"
    using assms(2)[OF True] by (simp add: parsePrimitive_quoted unescape_escape)
  ultimately show ?thesis by blast
next
  case False
  then have "formatPrimitive rt (JString s) options False = JString s"
    using assms(1) by (auto simp: formatPrimitive_def)
  moreover have "parsePrimitive rt s = JString s"
    using assms(3)[OF False] False by (intro parsePrimitive_plain) simp_all
  ultimately show ?thesis by blast
qed

section \<open>The validator\<close>

text \<open>The number of pieces of \<open>split\<close> is one more than the number of separators.\<close>

lemma split_at_count: "length (split_at [c] s) = Suc (length (filter (\<lambda>x. x = c) s))"
  by (induction s) (auto split: list.splits)

lemma pipes_count: "length (split (trim l) (js ''|'')) - Suc 0 = pipe_count l"
  by (simp add: split_def pipe_count_def split_at_count)

lemma validate_loop_end:
  "\<not> i < length lines \<Longrightarrow> validate_loop lines i t c errs = Inr errs"
  by (subst validate_loop.simps) simp

lemma validate_loop_skip:
  "i < length lines \<Longrightarrow> blankOrComment (lines ! i) \<Longrightarrow>
   validate_loop lines i t c errs = validate_loop lines (i + 1) t c errs"
  by (subst validate_loop.simps) (simp add: line_at_def blankOrComment_def)

lemma validate_loop_row:
  assumes "i < length lines" "\<not> blankOrComment (lines ! i)"
    "startsWith (trim (lines ! i)) (js ''|'')"
  shows "\<exists>new. validate_loop lines i t c errs =
           validate_loop lines (i + 1) True (if t then c else pipe_count (lines ! i)) (errs @ new) \<and>
         (new = [] \<longleftrightarrow> even (lineIndentOf (lines ! i)) \<and> (t \<longrightarrow> pipe_count (lines ! i) = c) \<and>
            endsWith (trim (lines ! i)) (js ''|'')) \<and>
         (\<forall>e \<in> set new. line e = i + 1 \<and> context' e = lines ! i)"
proof -
  define l where "l = lines ! i"
  define e1 where "e1 = (if lineIndentOf l mod 2 \<noteq> 0
     then [\<lparr> line = i + 1, column = 1,
             message = js ''Inconsistent indentation: '' @ nat_to_string (lineIndentOf l) @
               js '' spaces (should be multiple of 2)'',
             context' = l \<rparr>] else [])"
  define e2 where "e2 = (if t \<and> pipe_count l \<noteq> c
     then [\<lparr> line = i + 1, column = 1,
             message = js ''Table column mismatch: expected '' @ int_to_string (int c - 1) @
               js '' columns, got '' @ int_to_string (int (pipe_count l) - 1),
             context' = l \<rparr>] else [])"
  define e3 where "e3 = (if \<not> endsWith (trim l) (js ''|'')
     then [\<lparr> line = i + 1, column = length (trim l),
             message = js ''Table row must end with |'', context' = l \<rparr>] else [])"
  have step: "validate_loop lines i t c errs =
      validate_loop lines (i + 1) True (if t then c else pipe_count l) (errs @ (e1 @ e2 @ e3))"
    using assms unfolding l_def[symmetric]
    by (subst validate_loop.simps)
      (simp add: line_at_def blankOrComment_def Let_def pipes_count e1_def e2_def e3_def
        l_def[symmetric] del: js_unit)
  have empty: "e1 @ e2 @ e3 = [] \<longleftrightarrow>
      even (lineIndentOf l) \<and> (t \<longrightarrow> pipe_count l = c) \<and> endsWith (trim l) (js ''|'')"
    by (auto simp: e1_def e2_def e3_def simp del: js_unit)
  have each: "\<forall>e \<in> set (e1 @ e2 @ e3). line e = i + 1 \<and> context' e = l"
    by (auto simp: e1_def e2_def e3_def simp del: js_unit)
  show ?thesis using step empty each unfolding l_def by blast
qed

lemma validate_loop_other:
  assumes "i < length lines" "\<not> blankOrComment (lines ! i)"
    "\<not> startsWith (trim (lines ! i)) (js ''|'')"
  shows "\<exists>new. validate_loop lines i t c errs =
           validate_loop lines (i + 1) False 0 (errs @ new) \<and>
         (new = [] \<longleftrightarrow> even (lineIndentOf (lines ! i))) \<and>
         (\<forall>e \<in> set new. line e = i + 1 \<and> context' e = lines ! i)"
proof -
  define l where "l = lines ! i"
  define e1 where "e1 = (if lineIndentOf l mod 2 \<noteq> 0
     then [\<lparr> line = i + 1, column = 1,
             message = js ''Inconsistent indentation: '' @ nat_to_string (lineIndentOf l) @
               js '' spaces (should be multiple of 2)'',
             context' = l \<rparr>] else [])"
  have step: "validate_loop lines i t c errs = validate_loop lines (i + 1) False 0 (errs @ e1)"
    using assms unfolding l_def[symmetric]
    by (subst validate_loop.simps)
      (simp add: line_at_def blankOrComment_def Let_def e1_def l_def[symmetric] del: js_unit)
  have empty: "e1 = [] \<longleftrightarrow> even (lineIndentOf l)"
    by (auto simp: e1_def)
  have each: "\<forall>e \<in> set e1. line e = i + 1 \<and> context' e = l"
    by (auto simp: e1_def)
  show ?thesis using step empty each unfolding l_def by blast
qed

lemma validate_loop_combine:
  assumes i: "i < length lines"
    and rest: "validate_loop lines (i + 1) t' c' (errs @ new) = Inr errs'"
      "errs' = [] \<longleftrightarrow> errs @ new = [] \<and> accepts st' (drop (i + 1) lines)"
      "\<forall>e \<in> set errs'. e \<in> set (errs @ new) \<or>
         (i + 1 < line e \<and> line e \<le> length lines \<and> context' e = lines ! (line e - 1))"
    and new: "\<forall>e \<in> set new. line e = i + 1 \<and> context' e = lines ! i"
    and acc: "accepts st (drop i lines) \<longleftrightarrow> new = [] \<and> accepts st' (drop (i + 1) lines)"
  shows "(errs' = [] \<longleftrightarrow> errs = [] \<and> accepts st (drop i lines)) \<and>
     (\<forall>e \<in> set errs'. e \<in> set errs \<or>
        (i < line e \<and> line e \<le> length lines \<and> context' e = lines ! (line e - 1)))"
proof
  show "errs' = [] \<longleftrightarrow> errs = [] \<and> accepts st (drop i lines)"
    using rest(2) acc by auto
  show "\<forall>e \<in> set errs'. e \<in> set errs \<or>
        (i < line e \<and> line e \<le> length lines \<and> context' e = lines ! (line e - 1))"
  proof
    fix e assume "e \<in> set errs'"
    then consider "e \<in> set errs" | "e \<in> set new"
      | "i + 1 < line e \<and> line e \<le> length lines \<and> context' e = lines ! (line e - 1)"
      using rest(3) by auto
    then show "e \<in> set errs \<or>
        (i < line e \<and> line e \<le> length lines \<and> context' e = lines ! (line e - 1))"
    proof cases
      case 1
      then show ?thesis by simp
    next
      case 2
      then have "line e = i + 1" "context' e = lines ! i" using new by auto
      then show ?thesis using i by simp
    next
      case 3
      then show ?thesis by simp
    qed
  qed
qed

lemma validate_loop_result:
  "\<exists>errs'. validate_loop lines i t c errs = Inr errs' \<and>
     (errs' = [] \<longleftrightarrow> errs = [] \<and> accepts (if t then Some c else None) (drop i lines)) \<and>
     (\<forall>e \<in> set errs'. e \<in> set errs \<or>
        (i < line e \<and> line e \<le> length lines \<and> context' e = lines ! (line e - 1)))"
proof (induction "length lines - i" arbitrary: i t c errs)
  case 0
  then show ?case by (simp add: validate_loop_end)
next
  case (Suc n)
  then have i: "i < length lines" by simp
  then have d: "drop i lines = lines ! i # drop (i + 1) lines"
    by (simp add: Cons_nth_drop_Suc)
  have n: "n = length lines - (i + 1)" using Suc.hyps(2) by simp
  show ?case
  proof (cases "blankOrComment (lines ! i)")
    case True
    obtain errs' where r: "validate_loop lines (i + 1) t c (errs @ []) = Inr errs'"
      "errs' = [] \<longleftrightarrow> errs @ [] = [] \<and> accepts (if t then Some c else None) (drop (i + 1) lines)"
      "\<forall>e \<in> set errs'. e \<in> set (errs @ []) \<or>
         (i + 1 < line e \<and> line e \<le> length lines \<and> context' e = lines ! (line e - 1))"
      using Suc.hyps(1)[OF n, of t c errs] by auto
    have acc: "accepts (if t then Some c else None) (drop i lines) \<longleftrightarrow>
        ([] :: ValidationError list) = [] \<and>
        accepts (if t then Some c else None) (drop (i + 1) lines)"
      unfolding d using True by simp
    show ?thesis
      using validate_loop_combine[OF i r _ acc] r(1)
      unfolding validate_loop_skip[OF i True] by simp
  next
    case False
    show ?thesis
    proof (cases "startsWith (trim (lines ! i)) (js ''|'')")
      case row: True
      define c' where "c' = (if t then c else pipe_count (lines ! i))"
      obtain new where new: "validate_loop lines i t c errs =
           validate_loop lines (i + 1) True c' (errs @ new)"
         "new = [] \<longleftrightarrow> even (lineIndentOf (lines ! i)) \<and> (t \<longrightarrow> pipe_count (lines ! i) = c) \<and>
            endsWith (trim (lines ! i)) (js ''|'')"
         "\<forall>e \<in> set new. line e = i + 1 \<and> context' e = lines ! i"
        using validate_loop_row[OF i False row, of t c errs] unfolding c'_def by blast
      obtain errs' where r: "validate_loop lines (i + 1) True c' (errs @ new) = Inr errs'"
        "errs' = [] \<longleftrightarrow> errs @ new = [] \<and> accepts (Some c') (drop (i + 1) lines)"
        "\<forall>e \<in> set errs'. e \<in> set (errs @ new) \<or>
           (i + 1 < line e \<and> line e \<le> length lines \<and> context' e = lines ! (line e - 1))"
        using Suc.hyps(1)[OF n, of True c' "errs @ new"] by auto
      have acc: "accepts (if t then Some c else None) (drop i lines) \<longleftrightarrow>
          new = [] \<and> accepts (Some c') (drop (i + 1) lines)"
        unfolding d using False row new(2) by (auto simp: c'_def simp del: js_unit)
      show ?thesis
        using validate_loop_combine[OF i r new(3) acc] r(1) unfolding new(1) by simp
    next
      case other: False
      obtain new where new: "validate_loop lines i t c errs =
           validate_loop lines (i + 1) False 0 (errs @ new)"
         "new = [] \<longleftrightarrow> even (lineIndentOf (lines ! i))"
         "\<forall>e \<in> set new. line e = i + 1 \<and> context' e = lines ! i"
        using validate_loop_other[OF i False other, of t c errs] by blast
      obtain errs' where r: "validate_loop lines (i + 1) False 0 (errs @ new) = Inr errs'"
        "errs' = [] \<longleftrightarrow> errs @ new = [] \<and> accepts None (drop (i + 1) lines)"
        "\<forall>e \<in> set errs'. e \<in> set (errs @ new) \<or>
           (i + 1 < line e \<and> line e \<le> length lines \<and> context' e = lines ! (line e - 1))"
        using Suc.hyps(1)[OF n, of False 0 "errs @ new"] by auto
      have acc: "accepts (if t then Some c else None) (drop i lines) \<longleftrightarrow>
          new = [] \<and> accepts None (drop (i + 1) lines)"
        unfolding d using False other new(2) by (auto simp del: js_unit)
      show ?thesis
        using validate_loop_combine[OF i r new(3) acc] r(1) unfolding new(1) by simp
    qed
  qed
qed

text \<open>
  Claim C9. For every input \<open>validate\<close> returns a result and raises no error: the loop
  reads the lines within the array only. In the result \<open>valid\<close> is true exactly when the
  list of errors is empty, and that is exactly when the lines are accepted in the sense of
  \<open>accepts\<close>: even indentation, table rows that end with a pipe, and the same number of
  pipes from one table row to the next. Every error carries the number of a line of the
  input, counted from 1, and that line as its context.
\<close>

theorem validate_result:
  "\<exists>r. validate input = Inr r \<and>
     (valid r \<longleftrightarrow> errors r = []) \<and>
     (errors r = [] \<longleftrightarrow>
        accepts None (split (replace1 13 [10] (replace2 13 10 [10] input)) [10])) \<and>
     (\<forall>e \<in> set (errors r).
        1 \<le> line e \<and> line e \<le> length (split (replace1 13 [10] (replace2 13 10 [10] input)) [10]) \<and>
        context' e = split (replace1 13 [10] (replace2 13 10 [10] input)) [10] ! (line e - 1))"
proof -
  define lines where "lines = split (replace1 13 [10] (replace2 13 10 [10] input)) [10]"
  obtain errs where e: "validate_loop lines 0 False 0 [] = Inr errs"
    "errs = [] \<longleftrightarrow> accepts None lines"
    "\<forall>e \<in> set errs. 0 < line e \<and> line e \<le> length lines \<and> context' e = lines ! (line e - 1)"
    using validate_loop_result[of lines 0 False 0 "[]"] by auto
  have "validate input = Inr \<lparr> valid = (length errs = 0), errors = errs \<rparr>"
    by (simp add: validate_def lines_def[symmetric] e(1))
  then show ?thesis using e(2,3) unfolding lines_def[symmetric] by auto
qed

text \<open>
  Three spaces of indentation in the second line give one error, for that line, and the
  result is not valid; a table whose second row has one pipe more is not valid either.
\<close>

theorem validate_result_witness:
  "validate (js ''user:'' @ [10] @ js ''   name: Alice'') =
     Inr \<lparr> valid = False,
           errors = [\<lparr> line = 2, column = 1,
                       message = js ''Inconsistent indentation: 3 spaces (should be multiple of 2)'',
                       context' = js ''   name: Alice'' \<rparr>] \<rparr> \<and>
   \<not> accepts None (split (replace1 13 [10] (replace2 13 10 [10]
         (js ''user:'' @ [10] @ js ''   name: Alice''))) [10]) \<and>
   (\<exists>r. validate (js ''| a |'' @ [10] @ js ''| 1 | 2 |'') = Inr r \<and> \<not> valid r)"
proof -
  have 1: "validate (js ''user:'' @ [10] @ js ''   name: Alice'') =
     Inr \<lparr> valid = False,
           errors = [\<lparr> line = 2, column = 1,
                       message = js ''Inconsistent indentation: 3 spaces (should be multiple of 2)'',
                       context' = js ''   name: Alice'' \<rparr>] \<rparr>"
    by code_simp
  have 2: "\<not> accepts None (split (replace1 13 [10] (replace2 13 10 [10]
         (js ''| a |'' @ [10] @ js ''| 1 | 2 |''))) [10])"
    by code_simp
  show ?thesis
    using 1 2 validate_result[of "js ''user:'' @ [10] @ js ''   name: Alice''"]
      validate_result[of "js ''| a |'' @ [10] @ js ''| 1 | 2 |''"]
    by auto
qed

section \<open>The decoder\<close>

lemma parseDocument_loop_options:
  "parseDocument_loop rt lines b opts i result = parseDocument_loop rt lines b opts' i result"
proof (induction rt lines b opts i result rule: parseDocument_loop.induct)
  case (1 rt lines b opts i result)
  show ?case
    apply (subst parseDocument_loop.simps[of _ _ _ opts])
    apply (subst parseDocument_loop.simps[of _ _ _ opts'])
    using 1 by (auto split: action.splits sum.splits prod.splits)
qed

text \<open>
  Claim C4. For every text and every \<open>indent\<close>, \<open>decode\<close> with \<open>strict: true\<close>
  returns what it returns with \<open>strict: false\<close>.
\<close>

theorem decode_strict:
  "decode rt text \<lparr> strict = True, indent = n \<rparr> = decode rt text \<lparr> strict = False, indent = n \<rparr>"
  unfolding decode_def parseDocument_def
    parseDocument_loop_options[of rt _ _ "\<lparr> strict = True, indent = n \<rparr>" _ _
      "\<lparr> strict = False, indent = n \<rparr>"] ..

text \<open>A document with a nested object, a list and an empty array, decoded both ways.\<close>

theorem decode_strict_witness:
  "decode integer_runtime (js ''user:'' @ [10] @ js ''  id: 1'' @ [10] @ js ''  name: Alice'' @ [10] @ js ''tags: a, b, c'' @ [10] @ js ''items: []'') \<lparr> strict = True, indent = 2 \<rparr> =
     Inr (JObject [(js ''user'', JObject [(js ''id'', JNumber 1), (js ''name'', JString (js ''Alice''))]),
                   (js ''tags'', JArray [JString (js ''a''), JString (js ''b''), JString (js ''c'')]),
                   (js ''items'', JArray [])]) \<and>
   decode integer_runtime (js ''user:'' @ [10] @ js ''  id: 1'' @ [10] @ js ''  name: Alice'' @ [10] @ js ''tags: a, b, c'' @ [10] @ js ''items: []'') \<lparr> strict = False, indent = 2 \<rparr> =
     Inr (JObject [(js ''user'', JObject [(js ''id'', JNumber 1), (js ''name'', JString (js ''Alice''))]),
                   (js ''tags'', JArray [JString (js ''a''), JString (js ''b''), JString (js ''c'')]),
                   (js ''items'', JArray [])])"
proof -
  have "decode integer_runtime (js ''user:'' @ [10] @ js ''  id: 1'' @ [10] @ js ''  name: Alice'' @ [10] @ js ''tags: a, b, c'' @ [10] @ js ''items: []'') \<lparr> strict = False, indent = 2 \<rparr> =
     Inr (JObject [(js ''user'', JObject [(js ''id'', JNumber 1), (js ''name'', JString (js ''Alice''))]),
                   (js ''tags'', JArray [JString (js ''a''), JString (js ''b''), JString (js ''c'')]),
                   (js ''items'', JArray [])])"
    by code_simp
  then show ?thesis
    using decode_strict[of integer_runtime "js ''user:'' @ [10] @ js ''  id: 1'' @ [10] @ js ''  name: Alice'' @ [10] @ js ''tags: a, b, c'' @ [10] @ js ''items: []''" 2] by simp
qed

text \<open>An empty line ends the loop of \<open>parseTable\<close>: it does not start with the marker.\<close>

lemma parseTable_rows_blank:
  "i < length lines \<Longrightarrow> trim (lines ! i) = [] \<Longrightarrow>
   parseTable_rows rt lines ind headers i result = Inr (result, i)"
  by (subst parseTable_rows.simps) (simp add: startsWith_def js_def)

text \<open>
  Claim C5 does not hold of the code. In the table under \<open>k\<close> below, an empty line stands
  between the rows \<open>| 1 |\<close> and \<open>| 2 |\<close>. The test \<open>!trimmed.startsWith('|')\<close> comes
  first in the loop and ends the table at the empty line, before the test that was written
  to let empty lines pass (\<open>lineIndent < indent && trimmed !== ''\<close>); the row after the
  empty line is then skipped by \<open>parseDocument\<close> as a line that is indented too far.
\<close>

theorem table_ends_at_blank_line:
  "decode integer_runtime (js ''k:'' @ [10] @ js ''  | a |'' @ [10] @ js ''  | 1 |'' @ [10] @ [10] @ js ''  | 2 |'') \<lparr> strict = True, indent = 2 \<rparr> =
     Inr (JObject [(js ''k'', JArray [JObject [(js ''a'', JNumber 1)]])])"
  by code_simp


text \<open>What \<open>decode\<close> returns is an object or an array.\<close>

lemma make_object_plain: "plain_object (make_object p kvs)"
  by (simp add: make_object_def plain_object_def)

lemma set_property_plain:
  "plain_object obj \<Longrightarrow> set_property obj key v = Inr obj' \<Longrightarrow> plain_object obj'"
  by (auto simp: set_property_def Let_def make_object_plain split: if_splits inherited.splits)

lemma parseDocument_loop_plain:
  "parseDocument_loop rt lines b opts i result = Inr (res, e) \<Longrightarrow> plain_object result \<Longrightarrow>
   plain_object res"
proof (induction rt lines b opts i result arbitrary: res e rule: parseDocument_loop.induct)
  case (1 rt lines b opts i result)
  show ?case
  proof (cases "i < length lines")
    case False
    then show ?thesis using "1.prems" by (subst (asm) parseDocument_loop.simps) simp
  next
    case True
    show ?thesis
    proof (cases "line_action rt lines b i")
      case Skip
      then show ?thesis using True "1.prems" "1.IH"(1)[OF True Skip]
        by (subst (asm) parseDocument_loop.simps) simp
    next
      case Break
      then show ?thesis using True "1.prems" by (subst (asm) parseDocument_loop.simps) simp
    next
      case (Assign key v)
      then show ?thesis using True "1.prems" "1.IH"(2)[OF True Assign]
        by (subst (asm) parseDocument_loop.simps)
          (auto split: sum.splits dest: set_property_plain)
    next
      case (Table key n ind)
      then show ?thesis using True "1.prems" "1.IH"(3)[OF True Table]
        by (subst (asm) parseDocument_loop.simps)
          (auto split: sum.splits prod.splits dest: set_property_plain)
    next
      case (Nested key n ind)
      then show ?thesis using True "1.prems" "1.IH"(5)[OF True Nested]
        by (subst (asm) parseDocument_loop.simps)
          (auto split: sum.splits prod.splits dest: set_property_plain)
    qed
  qed
qed

lemma decode_container:
  "decode rt input options = Inr v \<Longrightarrow> plain_object v \<or> isArray v"
  unfolding decode_def Let_def parseDocument_def
  by (auto simp: plain_object_def isArray_def split: if_splits sum.splits prod.splits
      dest!: parseDocument_loop_plain)

text \<open>
  The pieces that the decoder cuts out of a line are parts of the line, and the lines are
  parts of the input.
\<close>

lemma sublist_trimStart: "sublist (trimStart s) s"
  unfolding trimStart_def by (rule suffix_imp_sublist) (rule suffix_dropWhile)

lemma sublist_trimEnd: "sublist (trimEnd s) s"
proof -
  have "suffix (dropWhile isWhiteSpace (rev s)) (rev s)" by (rule suffix_dropWhile)
  then have "prefix (trimEnd s) s" unfolding trimEnd_def by (simp add: suffix_to_prefix)
  then show ?thesis by (rule prefix_imp_sublist)
qed

lemma sublist_trim: "sublist (trim s) s"
  unfolding trim_def using sublist_trimEnd sublist_trimStart sublist_order.order_trans by blast

lemma sublist_slice: "sublist (slice xs a b) xs"
proof -
  have "sublist (take n (drop m xs)) xs" for n m
    using sublist_take[of n "drop m xs"] sublist_drop[of m xs] sublist_order.order_trans by blast
  then show ?thesis by (simp add: slice_def Let_def)
qed

lemma split_at_nonempty: "split_at sep s \<noteq> []"
  by (induction sep s rule: split_at.induct) (auto split: list.splits)

lemma split_at_hd_prefix: "split_at sep s = p # ps \<Longrightarrow> prefix p s"
  by (induction sep s arbitrary: p ps rule: split_at.induct)
    (auto split: if_splits list.splits)

lemma split_at_sublist: "x \<in> set (split_at sep s) \<Longrightarrow> sublist x s"
proof (induction sep s arbitrary: x rule: split_at.induct)
  case (1 sep)
  then show ?case by simp
next
  case (2 sep c cs)
  show ?case
  proof (cases "sep \<noteq> [] \<and> prefix sep (c # cs)")
    case True
    then have "x = [] \<or> x \<in> set (split_at sep (drop (length sep) (c # cs)))"
      using "2.prems" by auto
    then show ?thesis
    proof
      assume "x = []" then show ?thesis by simp
    next
      assume "x \<in> set (split_at sep (drop (length sep) (c # cs)))"
      then have "sublist x (drop (length sep) (c # cs))" using "2.IH"(1) True by blast
      then show ?thesis using sublist_drop sublist_order.order_trans by blast
    qed
  next
    case False
    obtain p ps where p: "split_at sep cs = p # ps"
      using split_at_nonempty[of sep cs] by (cases "split_at sep cs") auto
    then have "x = c # p \<or> x \<in> set ps" using "2.prems" False by auto
    then show ?thesis
    proof
      assume "x = c # p"
      then have "prefix x (c # cs)" using split_at_hd_prefix[OF p] by simp
      then show ?thesis by (rule prefix_imp_sublist)
    next
      assume "x \<in> set ps"
      then have "sublist x cs" using "2.IH"(2) False p by auto
      then show ?thesis by (simp add: sublist_Cons_right)
    qed
  qed
qed

lemma split_sublist: "sep \<noteq> [] \<Longrightarrow> x \<in> set (split s sep) \<Longrightarrow> sublist x s"
  by (simp add: split_def split_at_sublist)

lemma pipe_fields_sublist: "x \<in> set (pipe_fields s) \<Longrightarrow> sublist x s"
proof -
  assume "x \<in> set (pipe_fields s)"
  then have "x \<in> set (butlast (tl (split s (js ''|''))))"
    by (simp add: pipe_fields_def slice_inner del: js_unit)
  then have "x \<in> set (split s (js ''|''))"
    using in_set_butlastD[of x "tl (split s (js ''|''))"]
      list.set_sel(2)[of "split s (js ''|'')" x]
    by (cases "split s (js ''|'')") (auto simp del: js_unit)
  then show ?thesis by (rule split_sublist[rotated]) (simp add: js_def)
qed

lemma normalize_Nil: "normalize [] = []"
  by (simp add: normalize_def replace1_def)

lemma normalize_break:
  "x = 10 \<or> x = 13 \<Longrightarrow> \<exists>rest. normalize (x # s) = 10 # normalize rest \<and> suffix rest s"
proof (cases s)
  case Nil
  assume "x = 10 \<or> x = 13"
  then show ?thesis using Nil by (auto simp: normalize_def replace1_def)
next
  case (Cons y ys)
  assume x: "x = 10 \<or> x = 13"
  show ?thesis
  proof (cases "x = 13 \<and> y = 10")
    case True
    then have "normalize (x # s) = 10 # normalize ys"
      using Cons by (simp add: normalize_def replace1_def)
    moreover have "suffix ys s" using Cons by (simp add: suffix_ConsI)
    ultimately show ?thesis by blast
  next
    case False
    then have "normalize (x # s) = 10 # normalize s"
      using Cons x by (auto simp: normalize_def replace1_def)
    then show ?thesis by blast
  qed
qed

lemma normalize_other:
  "x \<noteq> 10 \<Longrightarrow> x \<noteq> 13 \<Longrightarrow> normalize (x # s) = x # normalize s"
  by (cases s) (auto simp: normalize_def replace1_def)

lemma normalize_prefix:
  "prefix p (normalize s) \<Longrightarrow> 10 \<notin> set p \<Longrightarrow> prefix p s"
proof (induction s arbitrary: p)
  case Nil
  then show ?case by (simp add: normalize_Nil)
next
  case (Cons x s)
  show ?case
  proof (cases p)
    case Nil
    then show ?thesis by simp
  next
    case (Cons a p')
    have a: "a \<noteq> 10" using Cons.prems(2) \<open>p = a # p'\<close> by auto
    show ?thesis
    proof (cases "x = 10 \<or> x = 13")
      case True
      then show ?thesis
        using normalize_break[OF True, of s] Cons.prems(1) a \<open>p = a # p'\<close> by auto
    next
      case False
      then have n: "normalize (x # s) = x # normalize s" by (simp add: normalize_other)
      then have "a = x" "prefix p' (normalize s)"
        using Cons.prems(1) \<open>p = a # p'\<close> by auto
      then show ?thesis
        using Cons.IH[of p'] Cons.prems(2) \<open>p = a # p'\<close> by auto
    qed
  qed
qed

lemma normalize_sublist:
  "sublist p (normalize s) \<Longrightarrow> 10 \<notin> set p \<Longrightarrow> sublist p s"
proof (induction "length s" arbitrary: s rule: less_induct)
  case less
  show ?case
  proof (cases s)
    case Nil
    then show ?thesis using less.prems(1) by (simp add: normalize_Nil)
  next
    case (Cons x s')
    show ?thesis
    proof (cases "x = 10 \<or> x = 13")
      case True
      then obtain rest where r: "normalize (x # s') = 10 # normalize rest" "suffix rest s'"
        using normalize_break[of x s'] by blast
      have "prefix p (10 # normalize rest) \<or> sublist p (normalize rest)"
        using less.prems(1) Cons r(1) by (simp add: sublist_Cons_right)
      then have "p = [] \<or> sublist p (normalize rest)"
        using less.prems(2) by (cases p) auto
      then show ?thesis
      proof
        assume "p = []" then show ?thesis by simp
      next
        assume a: "sublist p (normalize rest)"
        have "length rest < length s" using r(2) Cons by (auto dest: suffix_length_le)
        then have "sublist p rest" using less.hyps[of rest] a less.prems(2) by blast
        then have "sublist p s'" using r(2) suffix_imp_sublist sublist_order.order_trans by blast
        then show ?thesis using Cons by (simp add: sublist_Cons_right)
      qed
    next
      case False
      then have n: "normalize (x # s') = x # normalize s'" by (simp add: normalize_other)
      have "prefix p (normalize s) \<or> sublist p (normalize s')"
        using less.prems(1) Cons n by (simp add: sublist_Cons_right)
      then show ?thesis
      proof
        assume "prefix p (normalize s)"
        then show ?thesis using normalize_prefix less.prems(2) prefix_imp_sublist by blast
      next
        assume "sublist p (normalize s')"
        then have "sublist p s'" using less.hyps[of s'] Cons less.prems(2) by simp
        then show ?thesis using Cons by (simp add: sublist_Cons_right)
      qed
    qed
  qed
qed

text \<open>
  An assignment to an object literal can only go wrong through the key \<open>__proto__\<close>.
  When the input does not contain this name, every assignment creates or writes an own
  property, and the decoder returns.
\<close>

lemma key_sublist: "sublist (trim (slice (trim l) 0 k)) l"
  using sublist_trim[of "slice (trim l) 0 k"] sublist_slice[of "trim l" 0 k] sublist_trim[of l]
    sublist_order.order_trans by blast

lemma line_action_key:
  "line_action rt lines b i = Assign key v \<or> line_action rt lines b i = Table key n ind \<or>
   line_action rt lines b i = Nested key n ind \<Longrightarrow> sublist key (lines ! i)"
  by (auto simp: line_action_def Let_def key_sublist split: if_splits simp del: js_unit)

lemma set_property_other:
  "key \<noteq> js ''__proto__'' \<Longrightarrow>
   set_property (JObject kvs) key v = Inr (JObject (assign kvs key v))"
  by (simp add: set_property_def own_properties_def prototype_of_def make_object_def
      object_prototype_property_def Let_def)

lemma set_properties_other:
  "js ''__proto__'' \<notin> fst ` set kvs' \<Longrightarrow>
   \<exists>kvs''. set_properties (JObject kvs) kvs' = Inr (JObject kvs'')"
proof (induction kvs' arbitrary: kvs)
  case Nil
  then show ?case by simp
next
  case (Cons p kvs')
  obtain h c where p: "p = (h, c)" by (cases p)
  then have h: "h \<noteq> js ''__proto__''" using Cons.prems by auto
  show ?case
    using Cons.IH[of "assign kvs h c"] Cons.prems unfolding p
    by (simp add: set_property_other[OF h])
qed

lemma make_row_other:
  "js ''__proto__'' \<notin> set headers \<Longrightarrow> \<exists>kvs. make_row headers cells = Inr (JObject kvs)"
  unfolding make_row_def
  by (rule set_properties_other) (auto dest: set_zip_leftD)

lemma parseTable_rows_total:
  "js ''__proto__'' \<notin> set headers \<Longrightarrow>
   \<exists>rows e. parseTable_rows rt lines ind headers i result = Inr (rows, e)"
proof (induction rt lines ind headers i result rule: parseTable_rows.induct)
  case (1 rt lines ind headers i result)
  show ?case
  proof (cases "i < length lines \<and> startsWith (trim (lines ! i)) (js ''|'') \<and>
      \<not> (lineIndentOf (lines ! i) < ind \<and> trim (lines ! i) \<noteq> [])")
    case False
    then show ?thesis by (subst parseTable_rows.simps) (auto simp: Let_def simp del: js_unit)
  next
    case True
    let ?cells = "map (\<lambda>c. parsePrimitive rt (trim c)) (pipe_fields (trim (lines ! i)))"
    show ?thesis
    proof (cases "length ?cells = length headers")
      case same: True
      obtain kvs where row: "make_row headers ?cells = Inr (JObject kvs)"
        using make_row_other[OF "1.prems"] by blast
      have "\<exists>rows e. parseTable_rows rt lines ind headers (i + 1) (result @ [JObject kvs]) =
          Inr (rows, e)"
        using "1.IH"(1)[OF _ refl refl refl _ _ refl same row "1.prems"] True
        by (auto simp del: js_unit)
      then show ?thesis
        using True same row
        by (subst parseTable_rows.simps) (auto simp: Let_def simp del: js_unit)
    next
      case differ: False
      have "\<exists>rows e. parseTable_rows rt lines ind headers (i + 1) result = Inr (rows, e)"
        using "1.IH"(2)[OF _ refl refl refl _ _ refl differ "1.prems"] True
        by (auto simp del: js_unit)
      then show ?thesis
        using True differ
        by (subst parseTable_rows.simps) (auto simp: Let_def simp del: js_unit)
    qed
  qed
qed

lemma header_sublist:
  "h \<in> set (map trim (pipe_fields (trim l))) \<Longrightarrow> sublist h l"
proof -
  assume "h \<in> set (map trim (pipe_fields (trim l)))"
  then obtain f where f: "f \<in> set (pipe_fields (trim l))" "h = trim f" by auto
  then have "sublist f (trim l)" by (simp add: pipe_fields_sublist)
  then show ?thesis
    using f(2) sublist_trim[of f] sublist_trim[of l] sublist_order.order_trans by blast
qed

lemma parseTable_total:
  "s < length lines \<Longrightarrow> \<not> sublist (js ''__proto__'') (lines ! s) \<Longrightarrow>
   \<exists>rows e. parseTable rt lines s ind = Inr (rows, e)"
proof -
  assume s: "s < length lines" and n: "\<not> sublist (js ''__proto__'') (lines ! s)"
  have "js ''__proto__'' \<notin> set (map trim (pipe_fields (trim (lines ! s))))"
    using header_sublist[of "js ''__proto__''" "lines ! s"] n by blast
  then obtain rows e where
    "parseTable_rows rt lines ind (map trim (pipe_fields (trim (lines ! s)))) (s + 1) [] =
       Inr (rows, e)"
    using parseTable_rows_total by blast
  then show ?thesis using s by (simp add: parseTable_def Let_def)
qed

lemma line_action_next:
  "line_action rt lines b i = Table key n ind \<or> line_action rt lines b i = Nested key n ind \<Longrightarrow>
   n < length lines"
  by (auto simp: line_action_def Let_def split: if_splits simp del: js_unit)

lemma parseDocument_loop_total:
  assumes "\<forall>l \<in> set lines. \<not> sublist (js ''__proto__'') l"
  shows "\<exists>kvs' e. parseDocument_loop rt lines b opts i (JObject kvs) = Inr (JObject kvs', e)"
proof -
  have "\<forall>kvs. result = JObject kvs \<longrightarrow>
      (\<exists>kvs' e. parseDocument_loop rt lines b opts i result = Inr (JObject kvs', e))"
    for result
    using assms
  proof (induction rt lines b opts i result rule: parseDocument_loop.induct)
    case (1 rt lines b opts i result)
    show ?case
    proof (intro allI impI)
      fix kvs assume res: "result = JObject kvs"
      show "\<exists>kvs' e. parseDocument_loop rt lines b opts i result = Inr (JObject kvs', e)"
      proof (cases "i < length lines")
        case False
        then show ?thesis using res by (subst parseDocument_loop.simps) simp
      next
        case True
        then have no: "\<not> sublist (js ''__proto__'') (lines ! i)" using "1.prems" by simp
        show ?thesis
        proof (cases "line_action rt lines b i")
          case Skip
          then show ?thesis using True res "1.IH"(1)[OF True Skip "1.prems"]
            by (subst parseDocument_loop.simps) simp
        next
          case Break
          then show ?thesis using True res by (subst parseDocument_loop.simps) simp
        next
          case (Assign key v)
          have key: "key \<noteq> js ''__proto__''"
            using line_action_key[where key = key and v = v and lines = lines and i = i] Assign no by auto
          have sp: "set_property result key v = Inr (JObject (assign kvs key v))"
            using set_property_other[OF key] res by simp
          show ?thesis using True Assign sp "1.IH"(2)[OF True Assign sp "1.prems"]
            by (subst parseDocument_loop.simps) simp
        next
          case (Table key n ind)
          have key: "key \<noteq> js ''__proto__''"
            using line_action_key[where key = key and n = n and ind = ind and lines = lines and i = i] Table no by auto
          have n: "n < length lines" using line_action_next[where key = key and n = n and ind = ind and lines = lines and i = i] Table by blast
          then have "\<not> sublist (js ''__proto__'') (lines ! n)" using "1.prems" by simp
          then obtain rows e where t: "parseTable rt lines n ind = Inr (rows, e)"
            using parseTable_total[OF n] by blast
          have sp: "set_property result key (JArray rows) = Inr (JObject (assign kvs key (JArray rows)))"
            using set_property_other[OF key] res by simp
          show ?thesis using True Table t sp "1.IH"(3)[OF True Table t refl sp "1.prems"]
            by (subst parseDocument_loop.simps) simp
        next
          case (Nested key n ind)
          have key: "key \<noteq> js ''__proto__''"
            using line_action_key[where key = key and n = n and ind = ind and lines = lines and i = i] Nested no by auto
          obtain nv ne where t: "parseDocument_loop rt lines ind opts n (JObject []) = Inr (JObject nv, ne)"
            using "1.IH"(4)[OF True Nested "1.prems"] by blast
          have sp: "set_property result key (JObject nv) = Inr (JObject (assign kvs key (JObject nv)))"
            using set_property_other[OF key] res by simp
          show ?thesis using True Nested t sp "1.IH"(5)[OF True Nested t refl sp "1.prems"]
            by (subst parseDocument_loop.simps) simp
        qed
      qed
    qed
  qed
  then show ?thesis by blast
qed

lemma decode_total:
  assumes "\<not> sublist (js ''__proto__'') input"
  shows "\<exists>v. decode rt input options = Inr v"
proof -
  define lines where "lines = split (replace1 13 [10] (replace2 13 10 [10] input)) [10]"
  define s where "s = skipBlankOrComment lines 0"
  have no: "\<forall>l \<in> set lines. \<not> sublist (js ''__proto__'') l"
  proof
    fix l assume "l \<in> set lines"
    then have l: "sublist l (normalize input)"
      unfolding lines_def normalize_def by (intro split_sublist) simp_all
    show "\<not> sublist (js ''__proto__'') l"
    proof
      assume "sublist (js ''__proto__'') l"
      then have "sublist (js ''__proto__'') (normalize input)"
        using l sublist_order.order_trans by blast
      moreover have "10 \<notin> set (js ''__proto__'')" by (simp add: js_def)
      ultimately show False using normalize_sublist assms by blast
    qed
  qed
  have t0: "s < length lines \<Longrightarrow> \<exists>rows e. parseTable rt lines s 0 = Inr (rows, e)"
    using no by (intro parseTable_total) simp_all
  have t1: "s + 1 < length lines \<Longrightarrow> \<exists>rows e. parseTable rt lines (s + 1) 2 = Inr (rows, e)"
    using no by (intro parseTable_total) simp_all
  have d: "\<exists>res e. parseDocument_loop rt lines 0 options s (JObject []) = Inr (res, e)"
    using parseDocument_loop_total[OF no] by blast
  show ?thesis
    unfolding decode_def Let_def parseDocument_def lines_def[symmetric] s_def[symmetric]
    using t0 t1 d by (auto split: sum.splits prod.splits)
qed

text \<open>
  With the key \<open>__proto__\<close> the decoder can raise: the value \<open>constructor\<close> is read
  as the function \<open>Object\<close>, which becomes the prototype of the result, and the
  assignment to \<open>name\<close> then meets the read-only \<open>name\<close> of that function.
\<close>

lemma decode_raises:
  "decode integer_runtime (js ''__proto__: constructor'' @ [10] @ js ''name: x'')
     \<lparr> strict = True, indent = 2 \<rparr> = Inl TypeError"
  by code_simp

text \<open>A single line without a colon that is no table row.\<close>

lemma replace2_absent: "a \<notin> set s \<Longrightarrow> replace2 a b r s = s"
  by (induction a b r s rule: replace2.induct) auto

lemma replace1_absent: "c \<notin> set s \<Longrightarrow> replace1 c r s = s"
  by (induction s) (auto simp: replace1_def)

lemma split_at_absent: "c \<notin> set s \<Longrightarrow> split_at [c] s = [s]"
  by (induction s) auto

lemma set_trimStart: "set (trimStart s) \<subseteq> set s"
  by (auto simp: trimStart_def dest: set_dropWhileD)

lemma set_trimEnd: "set (trimEnd s) \<subseteq> set s"
  by (auto simp: trimEnd_def dest: set_dropWhileD)

lemma set_trim: "set (trim s) \<subseteq> set s"
  using set_trimStart set_trimEnd by (fastforce simp: trim_def)

lemma decode_single_literal:
  assumes "10 \<notin> set text" "13 \<notin> set text" "58 \<notin> set text"
    and "\<not> startsWith (trim text) (js ''|'')"
  shows "decode rt text options = Inr (JObject [])"
proof -
  have lines: "split (replace1 13 [10] (replace2 13 10 [10] text)) [10] = [text]"
    using assms(1,2) by (simp add: replace2_absent replace1_absent split_def split_at_absent)
  have colon: "58 \<notin> set (trim text)" using assms(3) set_trim by blast
  have marker: "\<not> startsWith (trim text) (js ''_:'')"
    using colon by (auto simp: startsWith_def js_def prefix_def)
  show ?thesis
  proof (cases "blankOrComment text")
    case True
    then show ?thesis by (simp add: decode_def lines)
  next
    case False
    have start: "skipBlankOrComment [text] 0 = 0"
      using False by (subst skipBlankOrComment.simps) simp
    have act: "line_action rt [text] 0 0 = Skip"
      using False colon assms(4)
      by (simp add: line_action_def Let_def blankOrComment_def indexOf_def)
    have loop: "parseDocument_loop rt [text] 0 options 0 (JObject []) = Inr (JObject [], 1)"
      apply (subst parseDocument_loop.simps)
      apply (simp add: act)
      apply (subst parseDocument_loop.simps)
      apply simp
      done
    show ?thesis
      using False assms(4) marker
      by (simp add: decode_def lines start parseDocument_def loop)
  qed
qed

text \<open>
  Claim C10. Whatever \<open>decode\<close> returns is an object or an array, never a primitive. It
  does return, without an error, for every input in which the name \<open>__proto__\<close> does not
  occur. An input of one line without a colon that does not start with the table marker
  decodes to the empty object.
\<close>

theorem decode_never_primitive:
  "(decode rt input options = Inr v \<longrightarrow>
      (\<exists>kvs. v = JObject kvs) \<or> (\<exists>p kvs. v = JObjectProto p kvs) \<or> (\<exists>xs. v = JArray xs)) \<and>
   (\<not> sublist (js ''__proto__'') input \<longrightarrow> (\<exists>v. decode rt input options = Inr v)) \<and>
   (10 \<notin> set input \<and> 13 \<notin> set input \<and> 58 \<notin> set input \<and> \<not> startsWith (trim input) (js ''|'') \<longrightarrow>
      decode rt input options = Inr (JObject []))"
proof (intro conjI impI)
  assume "decode rt input options = Inr v"
  then have "plain_object v \<or> isArray v" by (rule decode_container)
  then show "(\<exists>kvs. v = JObject kvs) \<or> (\<exists>p kvs. v = JObjectProto p kvs) \<or> (\<exists>xs. v = JArray xs)"
    by (cases v) (simp_all add: plain_object_def isArray_def)
next
  assume "\<not> sublist (js ''__proto__'') input"
  then show "\<exists>v. decode rt input options = Inr v" by (rule decode_total)
next
  assume "10 \<notin> set input \<and> 13 \<notin> set input \<and> 58 \<notin> set input \<and>
    \<not> startsWith (trim input) (js ''|'')"
  then show "decode rt input options = Inr (JObject [])"
    using decode_single_literal[of input rt options] by blast
qed

text \<open>
  The encoder writes a null root as \<open>null\<close> and the number 42 as \<open>42\<close>; both texts
  decode to the empty object, so a primitive at the root does not come back.
\<close>

theorem decode_never_primitive_witness:
  "encode integer_runtime JNull default_encode_options = JString (js ''null'') \<and>
   decode integer_runtime (js ''null'') \<lparr> strict = True, indent = 2 \<rparr> = Inr (JObject []) \<and>
   encode integer_runtime (JNumber 42) default_encode_options = JString (js ''42'') \<and>
   decode integer_runtime (js ''42'') \<lparr> strict = True, indent = 2 \<rparr> = Inr (JObject []) \<and>
   (\<exists>v. decode integer_runtime (js ''a: 1'') \<lparr> strict = True, indent = 2 \<rparr> = Inr v \<and>
        ((\<exists>kvs. v = JObject kvs) \<or> (\<exists>p kvs. v = JObjectProto p kvs) \<or> (\<exists>xs. v = JArray xs)))"
proof -
  have 1: "10 \<notin> set (js ''null'') \<and> 13 \<notin> set (js ''null'') \<and> 58 \<notin> set (js ''null'') \<and>
      \<not> startsWith (trim (js ''null'')) (js ''|'')"
    by code_simp
  have 2: "10 \<notin> set (js ''42'') \<and> 13 \<notin> set (js ''42'') \<and> 58 \<notin> set (js ''42'') \<and>
      \<not> startsWith (trim (js ''42'')) (js ''|'')"
    by code_simp
  have 3: "encode integer_runtime JNull default_encode_options = JString (js ''null'')"
    by code_simp
  have 4: "encode integer_runtime (JNumber 42) default_encode_options = JString (js ''42'')"
    by code_simp
  have 5: "\<not> sublist (js ''__proto__'') (js ''a: 1'')"
    by code_simp
  show ?thesis
    using 1 2 3 4 5
      decode_never_primitive[of integer_runtime "js ''null''" "\<lparr> strict = True, indent = 2 \<rparr>"]
      decode_never_primitive[of integer_runtime "js ''42''" "\<lparr> strict = True, indent = 2 \<rparr>"]
      decode_never_primitive[of integer_runtime "js ''a: 1''" "\<lparr> strict = True, indent = 2 \<rparr>"]
    by metis
qed

text \<open>
  Claim C6 does not hold of the code. \<open>parseTable\<close> builds a row by
  \<open>row[h] = cells[idx]\<close> for every column \<open>h\<close> of the header, on an object literal;
  for the column \<open>__proto__\<close> this assignment does not create a key but runs the setter
  that the row inherits from \<open>Object.prototype\<close>. In the first table below the header has
  the two columns \<open>__proto__\<close> and \<open>b\<close> and the row has two cells; the cell 1 is no
  object, nothing is stored, and the row has the single key \<open>b\<close>. In the second table
  the cell \<open>constructor\<close> is read as the function \<open>Object\<close> and becomes the prototype
  of the row; the assignment to the column \<open>name\<close> then raises, and so does \<open>decode\<close>,
  on a row that has as many cells as the header has columns.
\<close>

theorem row_lacks_header_key:
  "map trim (pipe_fields (trim (js ''| __proto__ | b |''))) = [js ''__proto__'', js ''b''] \<and>
   decode integer_runtime (js ''| __proto__ | b |'' @ [10] @ js ''| 1 | 2 |'')
     \<lparr> strict = True, indent = 2 \<rparr> = Inr (JArray [JObject [(js ''b'', JNumber 2)]]) \<and>
   decode integer_runtime (js ''| __proto__ | name |'' @ [10] @ js ''| constructor | x |'')
     \<lparr> strict = True, indent = 2 \<rparr> = Inl TypeError"
  by code_simp

text \<open>
  The rest of the table decoder. The own keys of an object after an assignment, and the rows
  of a table whose header does not name the column \<open>__proto__\<close>.
\<close>

lemma update_property_keys:
  "k \<in> set (map fst kvs) \<Longrightarrow> map fst (update_property kvs k v) = map fst kvs"
proof (induction kvs)
  case Nil
  then show ?case by simp
next
  case (Cons p kvs)
  obtain k' v' where p: "p = (k', v')" by (cases p)
  show ?case
  proof (cases "k' = k")
    case True
    then show ?thesis using p by simp
  next
    case False
    then have "k \<in> set (map fst kvs)" using Cons.prems p by auto
    then show ?thesis using Cons.IH False p by simp
  qed
qed

lemma insert_index_keys:
  "set (map fst (insert_index k v kvs)) = insert k (set (map fst kvs))"
proof (induction kvs)
  case Nil
  then show ?case by simp
next
  case (Cons p kvs)
  then show ?case by (cases p) (simp add: insert_commute)
qed

lemma insert_index_distinct:
  "k \<notin> set (map fst kvs) \<Longrightarrow> distinct (map fst kvs) \<Longrightarrow>
   distinct (map fst (insert_index k v kvs))"
proof (induction kvs)
  case Nil
  then show ?case by simp
next
  case (Cons p kvs)
  then show ?case using insert_index_keys[of k v kvs] by (cases p) auto
qed

lemma assign_keys: "set (map fst (assign kvs k v)) = insert k (set (map fst kvs))"
  unfolding assign_def
  by (simp add: update_property_keys insert_index_keys insert_absorb del: set_map)

lemma assign_key_set: "fst ` set (assign kvs k v) = insert k (fst ` set kvs)"
  using assign_keys[of kvs k v] by simp

lemma assign_distinct: "distinct (map fst kvs) \<Longrightarrow> distinct (map fst (assign kvs k v))"
  unfolding assign_def
  by (simp add: update_property_keys insert_index_distinct del: set_map)

lemma set_properties_keys:
  "js ''__proto__'' \<notin> fst ` set kvs' \<Longrightarrow> distinct (map fst kvs) \<Longrightarrow>
   \<exists>kvs''. set_properties (JObject kvs) kvs' = Inr (JObject kvs'') \<and>
      fst ` set kvs'' = fst ` set kvs \<union> fst ` set kvs' \<and> distinct (map fst kvs'')"
proof (induction kvs' arbitrary: kvs)
  case Nil
  then show ?case by simp
next
  case (Cons p kvs')
  obtain h c where p: "p = (h, c)" by (cases p)
  then have h: "h \<noteq> js ''__proto__''" using Cons.prems by auto
  have d: "distinct (map fst (assign kvs h c))" using Cons.prems(2) by (rule assign_distinct)
  show ?case
    using Cons.IH[of "assign kvs h c", OF _ d] Cons.prems(1) unfolding p
    by (auto simp: set_property_other[OF h] assign_key_set)
qed

lemma make_row_keys:
  "js ''__proto__'' \<notin> set headers \<Longrightarrow> length cells = length headers \<Longrightarrow>
   \<exists>kvs. make_row headers cells = Inr (JObject kvs) \<and> fst ` set kvs = set headers \<and>
     distinct (map fst kvs)"
proof -
  assume a: "js ''__proto__'' \<notin> set headers" "length cells = length headers"
  have "fst ` set (zip headers cells) = set headers"
    using a(2) by (metis map_fst_zip set_map)
  then show ?thesis
    using set_properties_keys[of "zip headers cells" "[]"] a(1) by (simp add: make_row_def)
qed

lemma continues_table_iff:
  "continues_table ind l \<longleftrightarrow>
     \<not> (\<not> startsWith (trim l) (js ''|'') \<or> (lineIndentOf l < ind \<and> trim l \<noteq> []))"
  by (auto simp: continues_table_def startsWith_def js_def)

lemma parseTable_rows_stop:
  "\<not> (i < length lines \<and> continues_table ind (lines ! i)) \<Longrightarrow>
   parseTable_rows rt lines ind headers i result = Inr (result, i)"
  by (subst parseTable_rows.simps) (auto simp: continues_table_iff Let_def)

lemma parseTable_rows_skip:
  "i < length lines \<Longrightarrow> continues_table ind (lines ! i) \<Longrightarrow>
   length (row_cells rt (lines ! i)) \<noteq> length headers \<Longrightarrow>
   parseTable_rows rt lines ind headers i result =
     parseTable_rows rt lines ind headers (i + 1) result"
  by (subst parseTable_rows.simps) (auto simp: continues_table_iff Let_def row_cells_def)

lemma parseTable_rows_push:
  "i < length lines \<Longrightarrow> continues_table ind (lines ! i) \<Longrightarrow>
   length (row_cells rt (lines ! i)) = length headers \<Longrightarrow>
   make_row headers (row_cells rt (lines ! i)) = Inr row \<Longrightarrow>
   parseTable_rows rt lines ind headers i result =
     parseTable_rows rt lines ind headers (i + 1) (result @ [row])"
  by (subst parseTable_rows.simps) (auto simp: continues_table_iff Let_def row_cells_def)

lemma parseTable_rows_eq:
  assumes "js ''__proto__'' \<notin> set headers"
  shows "\<exists>rows. parseTable_rows rt lines ind headers i result =
           Inr (result @ rows, i + length (takeWhile (continues_table ind) (drop i lines))) \<and>
         list_all2 (\<lambda>row cells. make_row headers cells = Inr row) rows
           (filter (\<lambda>cells. length cells = length headers)
              (map (row_cells rt) (takeWhile (continues_table ind) (drop i lines))))"
proof (induction "length lines - i" arbitrary: i result)
  case 0
  then show ?case by (simp add: parseTable_rows_stop)
next
  case (Suc n)
  then have i: "i < length lines" by simp
  then have d: "drop i lines = lines ! i # drop (Suc i) lines"
    by (simp add: Cons_nth_drop_Suc)
  have n: "n = length lines - (i + 1)" using Suc.hyps(2) by simp
  show ?case
  proof (cases "continues_table ind (lines ! i)")
    case False
    then show ?thesis by (simp add: parseTable_rows_stop d)
  next
    case True
    show ?thesis
    proof (cases "length (row_cells rt (lines ! i)) = length headers")
      case same: True
      obtain kvs where row: "make_row headers (row_cells rt (lines ! i)) = Inr (JObject kvs)"
        using make_row_keys[OF assms same] by blast
      obtain rows where r: "parseTable_rows rt lines ind headers (i + 1) (result @ [JObject kvs]) =
           Inr ((result @ [JObject kvs]) @ rows,
                (i + 1) + length (takeWhile (continues_table ind) (drop (i + 1) lines)))"
         "list_all2 (\<lambda>row cells. make_row headers cells = Inr row) rows
           (filter (\<lambda>cells. length cells = length headers)
              (map (row_cells rt) (takeWhile (continues_table ind) (drop (i + 1) lines))))"
        using Suc.hyps(1)[OF n, of "result @ [JObject kvs]"] by blast
      show ?thesis
        unfolding parseTable_rows_push[OF i True same row] r(1) d
        using True same row r(2) by (intro exI[of _ "JObject kvs # rows"]) simp
    next
      case differ: False
      obtain rows where r: "parseTable_rows rt lines ind headers (i + 1) result =
           Inr (result @ rows,
                (i + 1) + length (takeWhile (continues_table ind) (drop (i + 1) lines)))"
         "list_all2 (\<lambda>row cells. make_row headers cells = Inr row) rows
           (filter (\<lambda>cells. length cells = length headers)
              (map (row_cells rt) (takeWhile (continues_table ind) (drop (i + 1) lines))))"
        using Suc.hyps(1)[OF n, of result] by blast
      show ?thesis
        unfolding parseTable_rows_skip[OF i True differ] r(1) d
        using True differ r(2) by (intro exI[of _ rows]) simp
    qed
  qed
qed

text \<open>
  What \<open>parseTable\<close> computes on a header that has no column \<open>__proto__\<close>. It
  returns without an error. Its rows are built, in order, from exactly those lines it goes
  through whose number of cells is the number of columns of the header; a line with another
  number of cells leaves no trace and raises nothing. The keys of every row are the column
  names of the header, each once.
\<close>

lemma list_all2_left: "list_all2 P xs ys \<Longrightarrow> x \<in> set xs \<Longrightarrow> \<exists>y \<in> set ys. P x y"
  by (induction rule: list_all2_induct) auto

lemma parseTable_rows_of_lines:
  assumes "startIndex < length lines" "startsWith (trim (lines ! startIndex)) (js ''|'')"
    and "headers = map trim (pipe_fields (trim (lines ! startIndex)))"
    and "js ''__proto__'' \<notin> set headers"
  shows "\<exists>rows e. parseTable rt lines startIndex ind = Inr (rows, e) \<and>
     list_all2 (\<lambda>row cells. make_row headers cells = Inr row) rows
       (filter (\<lambda>cells. length cells = length headers)
          (map (row_cells rt) (takeWhile (continues_table ind) (drop (startIndex + 1) lines)))) \<and>
     (\<forall>row \<in> set rows. \<exists>kvs. row = JObject kvs \<and> fst ` set kvs = set headers \<and>
        distinct (map fst kvs))"
proof -
  define css where "css = filter (\<lambda>cells. length cells = length headers)
          (map (row_cells rt) (takeWhile (continues_table ind) (drop (startIndex + 1) lines)))"
  define n where "n = (startIndex + 1) +
             length (takeWhile (continues_table ind) (drop (startIndex + 1) lines))"
  obtain rows where r: "parseTable_rows rt lines ind headers (startIndex + 1) [] =
      Inr ([] @ rows, n)"
    "list_all2 (\<lambda>row cells. make_row headers cells = Inr row) rows css"
    using parseTable_rows_eq[OF assms(4), of rt lines ind "startIndex + 1" "[]"]
    unfolding css_def n_def by blast
  have r': "parseTable_rows rt lines ind (map trim (pipe_fields (trim (lines ! startIndex))))
      (Suc startIndex) [] = Inr (rows, n)"
    using r(1) assms(3) by simp
  have p: "parseTable rt lines startIndex ind = Inr (rows, n - 1)"
    unfolding parseTable_def Let_def using assms(1,2) by (simp add: r' del: js_unit)
  have k: "\<exists>kvs. row = JObject kvs \<and> fst ` set kvs = set headers \<and> distinct (map fst kvs)"
    if mem: "row \<in> set rows" for row
  proof -
    obtain cells where c: "cells \<in> set css" "make_row headers cells = Inr row"
      using list_all2_left[OF r(2) mem] by blast
    have "length cells = length headers" using c(1) unfolding css_def by simp
    then obtain kvs where "make_row headers cells = Inr (JObject kvs)"
      "fst ` set kvs = set headers" "distinct (map fst kvs)"
      using make_row_keys[OF assms(4)] by blast
    then show ?thesis using c(2) by simp
  qed
  show ?thesis using p r(2) k unfolding css_def by blast
qed

text \<open>
  A column name that occurs twice in the header gives one key, which holds the last of the
  two cells: the row has one key where the header has two columns.
\<close>

lemma duplicate_column_gives_one_key:
  "map trim (pipe_fields (trim (js ''| a | a |''))) = [js ''a'', js ''a''] \<and>
   decode integer_runtime (js ''| a | a |'' @ [10] @ js ''| 1 | 2 |'')
     \<lparr> strict = True, indent = 2 \<rparr> = Inr (JArray [JObject [(js ''a'', JNumber 2)]])"
  by code_simp

text \<open>
  Once an assignment of null to \<open>__proto__\<close> has removed the prototype of the row, a
  second column of that name becomes a key of the row.
\<close>

lemma second_proto_column_is_a_key:
  "decode integer_runtime (js ''| __proto__ | __proto__ |'' @ [10] @ js ''| - | 5 |'')
     \<lparr> strict = True, indent = 2 \<rparr> =
     Inr (JArray [JObjectProto JNull [(js ''__proto__'', JNumber 5)]])"
  by code_simp

section \<open>Round trips through the encoder and the decoder\<close>

text \<open>
  Claim C1 does not hold of the code. The object below has the one key \<open>path\<close>, whose
  value is the string \<open>C:\new\<close>, written here by its code units (92 is the backslash).
  The encoder quotes the value, for its colon, and doubles the backslash. On the way back
  \<open>unescapeString\<close> first replaces every backslash followed by \<open>n\<close> by a newline,
  over the whole text; this takes the second backslash of the escaped pair together with the
  \<open>n\<close>, and the decoded value has a newline (the code unit 10) where the original has
  the two characters backslash and \<open>n\<close>.
\<close>

theorem scalar_object_round_trip_fails:
  "encode integer_runtime (JObject [(js ''path'', JString [67, 58, 92, 110, 101, 119])])
     default_encode_options = JString (js ''path: '' @ [34, 67, 58, 92, 92, 110, 101, 119, 34]) \<and>
   decode integer_runtime (js ''path: '' @ [34, 67, 58, 92, 92, 110, 101, 119, 34])
     \<lparr> strict = True, indent = 2 \<rparr> =
     Inr (JObject [(js ''path'', JString [67, 58, 92, 10, 101, 119])])"
  by code_simp

text \<open>
  Claim C2 does not hold of the code. The array below has one object with the one key
  \<open>a\<close>, whose value \<open>x|y\<close> contains a pipe. It is encoded as a table, and the cell is
  quoted because of the pipe (34 is the double quote). \<open>parseTable\<close> splits the row at
  every pipe, also inside the quotes, finds two cells under a header of one column, and
  leaves the row out: the decoded array is empty.
\<close>

theorem table_round_trip_fails:
  "encode integer_runtime (JObject [(js ''k'', JArray [JObject [(js ''a'', JString (js ''x|y''))]])])
     default_encode_options =
     JString (js ''k:'' @ [10] @ js ''  | a     |'' @ [10] @ js ''  | '' @ [34] @ js ''x|y'' @ [34] @ js '' |'') \<and>
   decode integer_runtime
     (js ''k:'' @ [10] @ js ''  | a     |'' @ [10] @ js ''  | '' @ [34] @ js ''x|y'' @ [34] @ js '' |'')
     \<lparr> strict = True, indent = 2 \<rparr> = Inr (JObject [(js ''k'', JArray [])])"
  by code_simp

end
